theory Spec2Isabelle
  imports Main "HOL-Library.Word"
begin

unbundle bit_operations_syntax

section \<open>Data model of cpu-freqency.c\<close>

text \<open>
  What the module takes from the kernel, as one value per refresh cycle:
  the constant \<^verbatim>\<open>NR_CPUS\<close>, the masks behind \<^verbatim>\<open>for_each_online_cpu\<close> and
  \<^verbatim>\<open>for_each_possible_cpu\<close>, \<^verbatim>\<open>topology_core_id\<close>, and the value that
  \<^verbatim>\<open>rdmsrl_on_cpu(cpu, MSR_IA32_PERF_STATUS, &msr_value)\<close> stores. CPU numbers and
  core ids are \<^verbatim>\<open>unsigned int\<close> in the source and only compared, stored and used as
  indices: they are \<open>nat\<close> here.
\<close>

record host =
  NR_CPUS :: nat
  cpu_online :: "nat \<Rightarrow> bool"
  cpu_possible :: "nat \<Rightarrow> bool"
  topology_core_id :: "nat \<Rightarrow> nat"
  rdmsrl_on_cpu :: "nat \<Rightarrow> 64 word"

text \<open>
  \<^verbatim>\<open>for_each_online_cpu(cpu)\<close> and \<^verbatim>\<open>for_each_possible_cpu(cpu)\<close> visit the set bits
  of a mask of \<^verbatim>\<open>NR_CPUS\<close> bits, lowest first.
\<close>

definition online_cpus :: "host \<Rightarrow> nat list" where
  "online_cpus h = filter (cpu_online h) [0..<NR_CPUS h]"

definition possible_cpus :: "host \<Rightarrow> nat list" where
  "possible_cpus h = filter (cpu_possible h) [0..<NR_CPUS h]"

text \<open>
  An access outside an array is undefined behaviour in C; the model stops with the
  name of the array. \<open>ENOMEM\<close> is the error \<^verbatim>\<open>my_module_init\<close> returns.
\<close>

datatype error =
    OOB_first_thread_per_core
  | OOB_cpu_freqs
  | OOB_cpu_freq_data
  | ENOMEM

text \<open>A C loop over CPU numbers whose body may stop the run.\<close>

fun for_each_cpu :: "(nat \<Rightarrow> 's \<Rightarrow> error + 's) \<Rightarrow> nat list \<Rightarrow> 's \<Rightarrow> error + 's" where
  "for_each_cpu body [] s = Inr s"
| "for_each_cpu body (cpu # cpus) s =
     (case body cpu s of Inl e \<Rightarrow> Inl e | Inr s' \<Rightarrow> for_each_cpu body cpus s')"

text \<open>
  \<^verbatim>\<open>kmalloc_array(n, size, GFP_KERNEL)\<close> returns \<^verbatim>\<open>NULL\<close> or a block of \<open>n\<close>
  elements that is not cleared: an allocation is \<open>None\<close> or \<open>Some junk\<close>, where
  \<open>junk i\<close> is what element \<open>i\<close> of the block holds.
\<close>

definition kmalloc_array :: "nat \<Rightarrow> (nat \<Rightarrow> 'a) \<Rightarrow> 'a list" where
  "kmalloc_array n junk = map junk [0..<n]"

text \<open>
  \<^verbatim>\<open>struct cpu_freq_info { unsigned int cur_freq; unsigned int max; unsigned int min; }\<close>
  (lines 21--25). The fields \<^verbatim>\<open>max\<close> and \<^verbatim>\<open>min\<close> are suffixed, since HOL has
  constants of these names. \<^verbatim>\<open>unsigned int\<close> is a 32-bit word.
\<close>

record cpu_freq_info =
  cur_freq :: "32 word"
  max_freq :: "32 word"
  min_freq :: "32 word"

section \<open>The sampler's arithmetic (read\_cpu\_frequencies, lines 61--78)\<close>

text \<open>
  Lines 64 and 67: \<^verbatim>\<open>freq = (msr_value >> 8) & 0xff; freq *= 100;\<close> where
  \<^verbatim>\<open>msr_value\<close> is a \<^verbatim>\<open>uint64_t\<close> and \<^verbatim>\<open>freq\<close> an \<^verbatim>\<open>unsigned int\<close>: the
  assignment truncates to 32 bits and the multiplication wraps at 32 bits.
\<close>

definition msr_freq :: "64 word \<Rightarrow> 32 word" where
  "msr_freq msr_value =
     (let freq = (ucast (drop_bit 8 msr_value AND 0xff) :: 32 word)
      in freq * 100)"

text \<open>
  Lines 70--78, the update of one slot \<^verbatim>\<open>cpu_freqs[cpu]\<close> with the sample \<^verbatim>\<open>freq\<close>:
  three statements in the order of the source.
\<close>

definition update_slot :: "32 word \<Rightarrow> cpu_freq_info \<Rightarrow> cpu_freq_info" where
  "update_slot freq r =
     (let r1 = r\<lparr>cur_freq := freq\<rparr>;
          r2 = (if freq > max_freq r1 then r1\<lparr>max_freq := freq\<rparr> else r1);
          r3 = (if freq < min_freq r2 \<or> min_freq r2 = 0 then r2\<lparr>min_freq := freq\<rparr> else r2)
      in r3)"

section \<open>The scratch array first\_thread\_per\_core\<close>

text \<open>
  Lines 41--43 and 99--101:
  \<^verbatim>\<open>for (cpu = 0; cpu < NR_CPUS; cpu++) first_thread_per_core[cpu] = NR_CPUS;\<close>
\<close>

definition init_first_thread :: "host \<Rightarrow> nat list \<Rightarrow> error + nat list" where
  "init_first_thread h first_thread_per_core =
     for_each_cpu
       (\<lambda>cpu a. if cpu < length a then Inr (a[cpu := NR_CPUS h])
                else Inl OOB_first_thread_per_core)
       [0..<NR_CPUS h] first_thread_per_core"

text \<open>
  Lines 48--58 and, with the same text, 104--114: the core id of \<open>cpu\<close>, the marking of
  a core seen for the first time, and the test that decides \<^verbatim>\<open>continue\<close>. The three
  accesses \<^verbatim>\<open>first_thread_per_core[core_id]\<close> have the same index, so one bounds
  check stands for them. The result is the array and whether \<open>cpu\<close> is the first
  thread of its core (the loop goes on past \<^verbatim>\<open>continue\<close>).
\<close>

definition first_thread_step :: "host \<Rightarrow> nat \<Rightarrow> nat list \<Rightarrow> error + (nat list \<times> bool)" where
  "first_thread_step h cpu first_thread_per_core =
     (let core_id = topology_core_id h cpu
      in if core_id < length first_thread_per_core then
           let a = (if first_thread_per_core ! core_id = NR_CPUS h
                    then first_thread_per_core[core_id := cpu]
                    else first_thread_per_core)
           in Inr (a, cpu = a ! core_id)
         else Inl OOB_first_thread_per_core)"

section \<open>read\_cpu\_frequencies (lines 29--83)\<close>

text \<open>The body of the loop over the online CPUs, lines 46--78.\<close>

definition sample_cpu ::
  "host \<Rightarrow> nat \<Rightarrow> nat list \<times> cpu_freq_info list \<Rightarrow> error + (nat list \<times> cpu_freq_info list)" where
  "sample_cpu h cpu st =
     (case st of (first_thread_per_core, cpu_freqs) \<Rightarrow>
        (case first_thread_step h cpu first_thread_per_core of
           Inl e \<Rightarrow> Inl e
         | Inr (a, is_first) \<Rightarrow>
             if \<not> is_first then Inr (a, cpu_freqs)
             else if cpu < length cpu_freqs then
               Inr (a, cpu_freqs[cpu := update_slot (msr_freq (rdmsrl_on_cpu h cpu)) (cpu_freqs ! cpu)])
             else Inl OOB_cpu_freqs))"

text \<open>
  Lines 41--79: both loops, from the allocated scratch array. The result keeps the
  scratch array as it is when \<^verbatim>\<open>kfree\<close> is reached.
\<close>

definition sample_loops ::
  "host \<Rightarrow> nat list \<Rightarrow> cpu_freq_info list \<Rightarrow> error + (nat list \<times> cpu_freq_info list)" where
  "sample_loops h first_thread_per_core cpu_freqs =
     (case init_first_thread h first_thread_per_core of
        Inl e \<Rightarrow> Inl e
      | Inr a \<Rightarrow> for_each_cpu (sample_cpu h) (online_cpus h) (a, cpu_freqs))"

text \<open>
  The whole function: when the allocation fails it logs and returns, and the store
  is as before (lines 34--38).
\<close>

definition read_cpu_frequencies ::
  "host \<Rightarrow> (nat \<Rightarrow> nat) option \<Rightarrow> cpu_freq_info list \<Rightarrow> error + cpu_freq_info list" where
  "read_cpu_frequencies h alloc cpu_freqs =
     (case alloc of
        None \<Rightarrow> Inr cpu_freqs
      | Some junk \<Rightarrow>
          (case sample_loops h (kmalloc_array (NR_CPUS h) junk) cpu_freqs of
             Inl e \<Rightarrow> Inl e
           | Inr (a, cpu_freqs') \<Rightarrow> Inr cpu_freqs'))"

section \<open>update\_cpu\_freq\_data (lines 85--123)\<close>

text \<open>
  \<^verbatim>\<open>static char cpu_freq_data[4096]\<close> (line 18) has static storage: it starts as 4096
  zero bytes.
\<close>

definition NUL :: char where
  "NUL = CHR 0x00"

definition cpu_freq_data_init :: "char list" where
  "cpu_freq_data_init = replicate 4096 NUL"

text \<open>
  The conversion \<^verbatim>\<open>%u\<close>: an unsigned value in decimal, without leading zeros.
  \<open>digit_char\<close> is applied to numbers below 10 only.
\<close>

definition digit_char :: "nat \<Rightarrow> char" where
  "digit_char d = ''0123456789'' ! d"

fun dec_u :: "nat \<Rightarrow> string" where
  "dec_u n = (if n < 10 then [digit_char n] else dec_u (n div 10) @ [digit_char (n mod 10)])"

declare dec_u.simps [simp del]

text \<open>
  The text \<^verbatim>\<open>sprintf\<close> produces from a format whose only conversions are \<^verbatim>\<open>%u\<close>, one
  argument for each; every other character is copied.
\<close>

fun format_u :: "string \<Rightarrow> nat list \<Rightarrow> string" where
  "format_u (c # d # fmt) (a # args) =
     (if c = CHR ''%'' \<and> d = CHR ''u'' then dec_u a @ format_u fmt args
      else c # format_u (d # fmt) (a # args))"
| "format_u fmt args = fmt"

text \<open>
  \<^verbatim>\<open>len = sprintf(ptr, fmt, ...)\<close> with \<^verbatim>\<open>ptr\<close> at offset \<open>ptr\<close> of the buffer: it
  writes the text and a terminating zero byte, with no regard for the size of the buffer,
  and returns the length of the text. A write past the end of the buffer is undefined
  behaviour.
\<close>

definition sprintf :: "char list \<Rightarrow> nat \<Rightarrow> string \<Rightarrow> nat list \<Rightarrow> error + (char list \<times> nat)" where
  "sprintf buf ptr fmt args =
     (let s = format_u fmt args
      in if ptr + length s + 1 \<le> length buf
         then Inr (take ptr buf @ s @ NUL # drop (ptr + length s + 1) buf, length s)
         else Inl OOB_cpu_freq_data)"

text \<open>The body of the loop over the online CPUs, lines 104--118.\<close>

definition format_cpu ::
  "host \<Rightarrow> cpu_freq_info list \<Rightarrow> nat \<Rightarrow> nat list \<times> char list \<times> nat
   \<Rightarrow> error + (nat list \<times> char list \<times> nat)" where
  "format_cpu h cpu_freqs cpu st =
     (case st of (first_thread_per_core, cpu_freq_data, ptr) \<Rightarrow>
        (case first_thread_step h cpu first_thread_per_core of
           Inl e \<Rightarrow> Inl e
         | Inr (a, is_first) \<Rightarrow>
             if \<not> is_first then Inr (a, cpu_freq_data, ptr)
             else if cpu < length cpu_freqs then
               (case sprintf cpu_freq_data ptr
                       ''CPU %u Frequency: %u MHz, Max: %u MHz, Min: %u MHz\<newline>''
                       [cpu, unat (cur_freq (cpu_freqs ! cpu)), unat (max_freq (cpu_freqs ! cpu)),
                        unat (min_freq (cpu_freqs ! cpu))] of
                  Inl e \<Rightarrow> Inl e
                | Inr (cpu_freq_data', len) \<Rightarrow> Inr (a, cpu_freq_data', ptr + len))
             else Inl OOB_cpu_freqs))"

text \<open>Lines 87 and 99--119: \<^verbatim>\<open>ptr = cpu_freq_data\<close> and both loops.\<close>

definition format_loops ::
  "host \<Rightarrow> nat list \<Rightarrow> cpu_freq_info list \<Rightarrow> char list \<Rightarrow> error + (nat list \<times> char list \<times> nat)" where
  "format_loops h first_thread_per_core cpu_freqs cpu_freq_data =
     (case init_first_thread h first_thread_per_core of
        Inl e \<Rightarrow> Inl e
      | Inr a \<Rightarrow> for_each_cpu (format_cpu h cpu_freqs) (online_cpus h) (a, cpu_freq_data, 0))"

text \<open>
  The whole function: when the allocation fails it logs and returns, and the buffer
  is as before (lines 92--96).
\<close>

definition update_cpu_freq_data ::
  "host \<Rightarrow> (nat \<Rightarrow> nat) option \<Rightarrow> cpu_freq_info list \<Rightarrow> char list \<Rightarrow> error + char list" where
  "update_cpu_freq_data h alloc cpu_freqs cpu_freq_data =
     (case alloc of
        None \<Rightarrow> Inr cpu_freq_data
      | Some junk \<Rightarrow>
          (case format_loops h (kmalloc_array (NR_CPUS h) junk) cpu_freqs cpu_freq_data of
             Inl e \<Rightarrow> Inl e
           | Inr (a, cpu_freq_data', ptr) \<Rightarrow> Inr cpu_freq_data'))"

section \<open>my\_timer\_callback, proc\_read and my\_module\_init\<close>

text \<open>
  Lines 126--130. The state of the module is the store and the report buffer; the two
  allocations of the cycle are arguments. \<^verbatim>\<open>mod_timer\<close> only rearms the timer.
\<close>

definition my_timer_callback ::
  "host \<Rightarrow> (nat \<Rightarrow> nat) option \<Rightarrow> (nat \<Rightarrow> nat) option \<Rightarrow> cpu_freq_info list \<times> char list
   \<Rightarrow> error + (cpu_freq_info list \<times> char list)" where
  "my_timer_callback h alloc1 alloc2 st =
     (case st of (cpu_freqs, cpu_freq_data) \<Rightarrow>
        (case read_cpu_frequencies h alloc1 cpu_freqs of
           Inl e \<Rightarrow> Inl e
         | Inr cpu_freqs' \<Rightarrow>
             (case update_cpu_freq_data h alloc2 cpu_freqs' cpu_freq_data of
                Inl e \<Rightarrow> Inl e
              | Inr cpu_freq_data' \<Rightarrow> Inr (cpu_freqs', cpu_freq_data'))))"

text \<open>
  \<^verbatim>\<open>strlen(cpu_freq_data)\<close>: the number of bytes before the first zero byte; without
  a zero byte in the buffer the read runs past its end.
\<close>

definition strlen :: "char list \<Rightarrow> error + nat" where
  "strlen buf =
     (if NUL \<in> set buf then Inr (length (takeWhile (\<lambda>c. c \<noteq> NUL) buf))
      else Inl OOB_cpu_freq_data)"

text \<open>
  Modelled from the spec: \<^verbatim>\<open>simple_read_from_buffer\<close> is a routine of the kernel and
  not part of the repository. The specification describes the read surface as "a
  byte-oriented read operation accepting a destination capacity and a position cursor,
  returning the number of bytes delivered (zero at end-of-report)", "supporting partial
  reads via an offset/length cursor". The cursor is a position in the report, a natural
  number. The result is the bytes delivered, the new cursor and the returned count.
\<close>

definition simple_read_from_buffer ::
  "nat \<Rightarrow> nat \<Rightarrow> char list \<Rightarrow> nat \<Rightarrow> char list \<times> nat \<times> nat" where
  "simple_read_from_buffer count ppos from available =
     (if available \<le> ppos \<or> count = 0 then ([], ppos, 0)
      else let n = min count (available - ppos)
           in (take n (drop ppos from), ppos + n, n))"

text \<open>Lines 133--135.\<close>

definition proc_read :: "nat \<Rightarrow> nat \<Rightarrow> char list \<Rightarrow> error + (char list \<times> nat \<times> nat)" where
  "proc_read count ppos cpu_freq_data =
     (case strlen cpu_freq_data of
        Inl e \<Rightarrow> Inl e
      | Inr available \<Rightarrow> Inr (simple_read_from_buffer count ppos cpu_freq_data available))"

text \<open>
  Lines 149--158 of \<^verbatim>\<open>my_module_init\<close>: the store is a block of \<^verbatim>\<open>NR_CPUS\<close> records from
  \<^verbatim>\<open>kmalloc_array\<close>, and the loop over the possible CPUs assigns \<^verbatim>\<open>min\<close> only.
\<close>

definition init_min :: "host \<Rightarrow> cpu_freq_info list \<Rightarrow> error + cpu_freq_info list" where
  "init_min h cpu_freqs =
     for_each_cpu
       (\<lambda>cpu a. if cpu < length a then Inr (a[cpu := (a ! cpu)\<lparr>min_freq := 0\<rparr>])
                else Inl OOB_cpu_freqs)
       (possible_cpus h) cpu_freqs"

text \<open>
  The whole of \<^verbatim>\<open>my_module_init\<close> (lines 143--177): \<open>alloc\<close> is the allocation of the
  store, \<open>proc_ok\<close> whether \<^verbatim>\<open>proc_create\<close> succeeds, \<open>alloc1\<close> and \<open>alloc2\<close> the
  allocations of the first refresh. The buffer is in its initial state.
\<close>

definition my_module_init ::
  "host \<Rightarrow> (nat \<Rightarrow> cpu_freq_info) option \<Rightarrow> bool \<Rightarrow> (nat \<Rightarrow> nat) option \<Rightarrow> (nat \<Rightarrow> nat) option
   \<Rightarrow> error + (cpu_freq_info list \<times> char list)" where
  "my_module_init h alloc proc_ok alloc1 alloc2 =
     (case alloc of
        None \<Rightarrow> Inl ENOMEM
      | Some junk \<Rightarrow>
          (case init_min h (kmalloc_array (NR_CPUS h) junk) of
             Inl e \<Rightarrow> Inl e
           | Inr cpu_freqs \<Rightarrow>
               if \<not> proc_ok then Inl ENOMEM
               else
                 (case read_cpu_frequencies h alloc1 cpu_freqs of
                    Inl e \<Rightarrow> Inl e
                  | Inr cpu_freqs' \<Rightarrow>
                      (case update_cpu_freq_data h alloc2 cpu_freqs' cpu_freq_data_init of
                         Inl e \<Rightarrow> Inl e
                       | Inr cpu_freq_data' \<Rightarrow> Inr (cpu_freqs', cpu_freq_data')))))"

section \<open>Notions used to state the properties\<close>

text \<open>
  The lowest-numbered online CPU whose core id is \<open>c\<close>, if there is one: the
  representative of core \<open>c\<close> in the words of the specification.
\<close>

definition lowest_online :: "host \<Rightarrow> nat \<Rightarrow> nat option" where
  "lowest_online h c =
     find (\<lambda>cpu. cpu_online h cpu \<and> topology_core_id h cpu = c) [0..<NR_CPUS h]"

text \<open>The representative CPUs, in ascending order.\<close>

definition representatives :: "host \<Rightarrow> nat list" where
  "representatives h =
     [cpu \<leftarrow> [0..<NR_CPUS h]. lowest_online h (topology_core_id h cpu) = Some cpu]"

text \<open>
  The line of the report as the specification writes it:
  \<^verbatim>\<open>CPU <id> Frequency: <current> MHz, Max: <maximum> MHz, Min: <minimum> MHz\<close>
  and a line terminator, the numbers in decimal.
\<close>

definition report_line :: "nat \<Rightarrow> cpu_freq_info \<Rightarrow> string" where
  "report_line cpu r =
     ''CPU '' @ dec_u cpu @ '' Frequency: '' @ dec_u (unat (cur_freq r)) @ '' MHz, Max: ''
     @ dec_u (unat (max_freq r)) @ '' MHz, Min: '' @ dec_u (unat (min_freq r))
     @ '' MHz\<newline>''"

definition report :: "host \<Rightarrow> cpu_freq_info list \<Rightarrow> string" where
  "report h cpu_freqs = concat (map (\<lambda>cpu. report_line cpu (cpu_freqs ! cpu)) (representatives h))"

text \<open>Reading a decimal numeral, to state that \<^verbatim>\<open>%u\<close> prints the number it is given.\<close>

definition digit_val :: "char \<Rightarrow> nat" where
  "digit_val c = of_char c - 48"

definition undec :: "string \<Rightarrow> nat" where
  "undec s = foldl (\<lambda>n c. 10 * n + digit_val c) 0 s"

text \<open>The invariant of a slot of the store.\<close>

definition slot_inv :: "cpu_freq_info \<Rightarrow> bool" where
  "slot_inv r = (min_freq r \<noteq> 0 \<longrightarrow> min_freq r \<le> cur_freq r \<and> cur_freq r \<le> max_freq r)"

text \<open>
  For the proofs: the first CPU of a list with core id \<open>c\<close>, or \<^verbatim>\<open>NR_CPUS\<close>; the shape
  the two loop bodies share, with the action on a first thread as a parameter; and the
  two actions.
\<close>

definition first_of :: "host \<Rightarrow> nat list \<Rightarrow> nat \<Rightarrow> nat" where
  "first_of h cpus c =
     (case find (\<lambda>cpu. topology_core_id h cpu = c) cpus of None \<Rightarrow> NR_CPUS h | Some cpu \<Rightarrow> cpu)"

definition on_first_thread ::
  "host \<Rightarrow> (nat \<Rightarrow> 's \<Rightarrow> error + 's) \<Rightarrow> nat \<Rightarrow> nat list \<times> 's \<Rightarrow> error + (nat list \<times> 's)" where
  "on_first_thread h act cpu st =
     (case st of (a, x) \<Rightarrow>
        (case first_thread_step h cpu a of
           Inl e \<Rightarrow> Inl e
         | Inr (a', is_first) \<Rightarrow>
             if \<not> is_first then Inr (a', x)
             else (case act cpu x of Inl e \<Rightarrow> Inl e | Inr x' \<Rightarrow> Inr (a', x'))))"

definition sample_act :: "host \<Rightarrow> nat \<Rightarrow> cpu_freq_info list \<Rightarrow> error + cpu_freq_info list" where
  "sample_act h cpu cpu_freqs =
     (if cpu < length cpu_freqs then
        Inr (cpu_freqs[cpu := update_slot (msr_freq (rdmsrl_on_cpu h cpu)) (cpu_freqs ! cpu)])
      else Inl OOB_cpu_freqs)"

definition format_act :: "cpu_freq_info list \<Rightarrow> nat \<Rightarrow> char list \<times> nat \<Rightarrow> error + (char list \<times> nat)" where
  "format_act cpu_freqs cpu st =
     (case st of (buf, ptr) \<Rightarrow>
        if cpu < length cpu_freqs then
          (if ptr + length (report_line cpu (cpu_freqs ! cpu)) + 1 \<le> length buf
           then Inr (take ptr buf @ report_line cpu (cpu_freqs ! cpu)
                       @ NUL # drop (ptr + length (report_line cpu (cpu_freqs ! cpu)) + 1) buf,
                     ptr + length (report_line cpu (cpu_freqs ! cpu)))
           else Inl OOB_cpu_freq_data)
        else Inl OOB_cpu_freqs)"

text \<open>
  The stores the module can hold on a machine with \<^verbatim>\<open>NR_CPUS = n\<close> and the possible
  CPUs \<open>possible\<close>: the store \<^verbatim>\<open>my_module_init\<close> sets up, and the store after a refresh
  cycle from such a store. The online CPUs, the core ids and the register values may
  differ from cycle to cycle.
\<close>

inductive reachable :: "nat \<Rightarrow> (nat \<Rightarrow> bool) \<Rightarrow> cpu_freq_info list \<Rightarrow> bool"
  for n :: nat and possible :: "nat \<Rightarrow> bool" where
  init: "NR_CPUS h = n \<Longrightarrow> cpu_possible h = possible \<Longrightarrow>
         init_min h (kmalloc_array n junk) = Inr s \<Longrightarrow> reachable n possible s"
| cycle: "reachable n possible s \<Longrightarrow> NR_CPUS h = n \<Longrightarrow>
          read_cpu_frequencies h alloc s = Inr s' \<Longrightarrow> reachable n possible s'"

section \<open>Concrete machines\<close>

text \<open>
  Four online CPUs, two threads per core (core ids 0, 0, 1, 1); CPU 0 reads a register
  value with the field \<open>0x19\<close>, the others one with the field \<open>0x12\<close>.
\<close>

definition example_host :: host where
  "example_host =
     \<lparr>NR_CPUS = 4, cpu_online = (\<lambda>cpu. True), cpu_possible = (\<lambda>cpu. True),
      topology_core_id = (\<lambda>cpu. cpu div 2),
      rdmsrl_on_cpu = (\<lambda>cpu. if cpu = 0 then 0x1900 else 0x1200)\<rparr>"

definition example_freqs :: "cpu_freq_info list" where
  "example_freqs =
     [\<lparr>cur_freq = 2500, max_freq = 3400, min_freq = 1200\<rparr>,
      \<lparr>cur_freq = 0, max_freq = 0, min_freq = 0\<rparr>,
      \<lparr>cur_freq = 1800, max_freq = 1800, min_freq = 1800\<rparr>,
      \<lparr>cur_freq = 0, max_freq = 0, min_freq = 0\<rparr>]"

text \<open>
  A kernel built for four CPUs on a machine whose four cores have the core ids
  0, 1, 8 and 9.
\<close>

definition sparse_host :: host where
  "sparse_host =
     \<lparr>NR_CPUS = 4, cpu_online = (\<lambda>cpu. True), cpu_possible = (\<lambda>cpu. True),
      topology_core_id = (\<lambda>cpu. if cpu < 2 then cpu else cpu + 6),
      rdmsrl_on_cpu = (\<lambda>cpu. 0x1900)\<rparr>"

text \<open>A machine with \<open>n\<close> online CPUs, each a core of its own, all at 2500 MHz.\<close>

definition wide_host :: "nat \<Rightarrow> host" where
  "wide_host n =
     \<lparr>NR_CPUS = n, cpu_online = (\<lambda>cpu. True), cpu_possible = (\<lambda>cpu. True),
      topology_core_id = (\<lambda>cpu. cpu),
      rdmsrl_on_cpu = (\<lambda>cpu. 0x1900)\<rparr>"

text \<open>
  A kernel built for four CPUs on a machine with two CPUs: CPUs 0 and 1 are possible and
  online, each a core of its own, at 2500 MHz; the CPU numbers 2 and 3 are not possible.
\<close>

definition partial_host :: host where
  "partial_host =
     \<lparr>NR_CPUS = 4, cpu_online = (\<lambda>cpu. cpu < 2), cpu_possible = (\<lambda>cpu. cpu < 2),
      topology_core_id = (\<lambda>cpu. cpu),
      rdmsrl_on_cpu = (\<lambda>cpu. 0x1900)\<rparr>"

section \<open>Frequency derivation and the update rule\<close>

lemma msr_freq_unat: "unat (msr_freq v) = (unat v div 2 ^ 8 mod 2 ^ 8) * 100"
proof -
  have a: "drop_bit 8 v AND 0xff = take_bit 8 (drop_bit 8 v)"
    using take_bit_eq_mask[of 8 "drop_bit 8 v"] by (simp add: mask_eq_exp_minus_1)
  have b: "unat (take_bit 8 (drop_bit 8 v)) = unat v div 256 mod 256"
    by (simp add: take_bit_eq_mod drop_bit_eq_div unat_mod_distrib unat_div_distrib)
  have c: "unat (ucast (take_bit 8 (drop_bit 8 v)) :: 32 word) = unat v div 256 mod 256"
    using b by (simp add: unsigned_ucast_eq take_bit_nat_eq_self)
  show ?thesis
    unfolding msr_freq_def Let_def a by (simp add: unat_word_ariths c)
qed

text \<open>
  Claim C3. For every 64-bit raw register value, the derived frequency is the 8-bit
  field in bits 8--15 of the value (the value divided by \<open>2^8\<close>, modulo \<open>2^8\<close>) times 100,
  with no wrap-around at 32 bits; a value whose field is \<open>0x19 = 25\<close> gives 2500.
\<close>

theorem msr_freq_is_field_times_100:
  "unat (msr_freq v) = (unat v div 2 ^ 8 mod 2 ^ 8) * 100
   \<and> (unat v div 2 ^ 8 mod 2 ^ 8 = 0x19 \<longrightarrow> msr_freq v = 2500)"
proof (intro conjI impI)
  show "unat (msr_freq v) = (unat v div 2 ^ 8 mod 2 ^ 8) * 100"
    by (rule msr_freq_unat)
next
  assume "unat v div 2 ^ 8 mod 2 ^ 8 = 0x19"
  then have "unat (msr_freq v) = unat (2500 :: 32 word)"
    by (simp add: msr_freq_unat)
  then show "msr_freq v = 2500"
    by (simp only: word_unat_eq_iff)
qed

theorem msr_freq_is_field_times_100_witness:
  "unat (msr_freq 0xABCD1234567819EF) = (unat (0xABCD1234567819EF :: 64 word) div 2 ^ 8 mod 2 ^ 8) * 100
   \<and> unat (0xABCD1234567819EF :: 64 word) div 2 ^ 8 mod 2 ^ 8 = 0x19
   \<and> msr_freq 0xABCD1234567819EF = 2500"
  using msr_freq_is_field_times_100 [of "0xABCD1234567819EF"] by simp

text \<open>
  Claim C4. One update step with the sample \<open>freq\<close> sets current to \<open>freq\<close>, maximum to
  the larger of the old maximum and \<open>freq\<close>, and minimum to \<open>freq\<close> exactly when the old
  minimum is 0 or \<open>freq\<close> is below it (otherwise minimum stays); from a zeroed slot the
  samples 1200, 3400, 2000 in this order end in current 2000, maximum 3400, minimum 1200.
\<close>

theorem update_slot_rule:
  "update_slot freq r =
     r\<lparr>cur_freq := freq,
       max_freq := max (max_freq r) freq,
       min_freq := (if min_freq r = 0 \<or> freq < min_freq r then freq else min_freq r)\<rparr>
   \<and> fold update_slot [1200, 3400, 2000] \<lparr>cur_freq = 0, max_freq = 0, min_freq = 0\<rparr>
       = \<lparr>cur_freq = 2000, max_freq = 3400, min_freq = 1200\<rparr>"
  by (auto simp: update_slot_def Let_def max_def)

lemma update_slot_inv:
  "min_freq (update_slot freq r) \<le> cur_freq (update_slot freq r)
   \<and> cur_freq (update_slot freq r) \<le> max_freq (update_slot freq r)"
  by (auto simp: update_slot_def Let_def)

section \<open>Loops over CPU numbers\<close>

text \<open>
  A loop that rewrites the slots of distinct indices of an array, each from its own
  earlier content: the initialisation of the scratch array, the initialisation of the
  store and the updates of the sampler are of this form.
\<close>

lemma slot_loop:
  assumes "distinct cpus"
  shows "for_each_cpu (\<lambda>cpu a. if cpu < length a then Inr (a[cpu := f cpu (a ! cpu)]) else Inl e) cpus a
         = (if \<forall>cpu\<in>set cpus. cpu < length a
            then Inr (map (\<lambda>i. if i \<in> set cpus then f i (a ! i) else a ! i) [0..<length a])
            else Inl e)"
  using assms
proof (induction cpus arbitrary: a)
  case Nil
  then show ?case by (simp add: map_nth)
next
  case (Cons cpu cpus)
  let ?body = "\<lambda>cpu a. if cpu < length a then Inr (a[cpu := f cpu (a ! cpu)]) else Inl e"
  let ?a1 = "a[cpu := f cpu (a ! cpu)]"
  show ?case
  proof (cases "cpu < length a")
    case False
    then show ?thesis by simp
  next
    case True
    have d: "distinct cpus" "cpu \<notin> set cpus" using Cons.prems by simp_all
    have "for_each_cpu ?body (cpu # cpus) a = for_each_cpu ?body cpus ?a1"
      using True by simp
    also have "\<dots> = (if \<forall>cpu\<in>set cpus. cpu < length ?a1
            then Inr (map (\<lambda>i. if i \<in> set cpus then f i (?a1 ! i) else ?a1 ! i) [0..<length ?a1])
            else Inl e)"
      by (rule Cons.IH [OF d(1)])
    also have "\<dots> = (if \<forall>cpu\<in>set (cpu # cpus). cpu < length a
            then Inr (map (\<lambda>i. if i \<in> set (cpu # cpus) then f i (a ! i) else a ! i) [0..<length a])
            else Inl e)"
      using True d(2) by (auto simp: nth_list_update)
    finally show ?thesis .
  qed
qed

lemma for_each_cpu_Inl:
  assumes "\<forall>cpu s. body cpu s \<noteq> Inl e"
  shows "for_each_cpu body cpus s \<noteq> Inl e"
  using assms by (induction cpus arbitrary: s) (auto split: sum.splits)

section \<open>The first thread of a core\<close>

text \<open>
  After the CPUs \<open>seen\<close> the scratch array holds, for every core id below \<^verbatim>\<open>NR_CPUS\<close>,
  the first CPU of \<open>seen\<close> with this core id, or \<^verbatim>\<open>NR_CPUS\<close>. With core ids in range,
  a loop whose body has the shape of the two loop bodies is the loop of its action over
  the CPUs that are the first of their core.
\<close>

lemma find_append_case:
  "find P (xs @ ys) = (case find P xs of None \<Rightarrow> find P ys | Some x \<Rightarrow> Some x)"
  by (induction xs) auto

lemma find_in_set: "find P xs = Some x \<Longrightarrow> x \<in> set xs \<and> P x"
  by (induction xs) (auto split: if_splits)

lemma find_filter: "find P (filter Q xs) = find (\<lambda>x. Q x \<and> P x) xs"
  by (induction xs) auto

lemma find_upt_Some:
  assumes "find P [0..<n] = Some x"
  shows "x < n \<and> P x \<and> (\<forall>y<x. \<not> P y)"
proof -
  from assms obtain i where i: "i < length [0..<n]" "P ([0..<n] ! i)" "x = [0..<n] ! i"
    "\<forall>j<i. \<not> P ([0..<n] ! j)"
    unfolding find_Some_iff by blast
  then show ?thesis by auto
qed

lemma find_upt_None: "find P [0..<n] = None \<longleftrightarrow> (\<forall>i<n. \<not> P i)"
  by (auto simp: find_None_iff)

lemma first_of_snoc:
  "first_of h (seen @ [cpu]) c =
     (case find (\<lambda>y. topology_core_id h y = c) seen of
        None \<Rightarrow> if topology_core_id h cpu = c then cpu else NR_CPUS h
      | Some y \<Rightarrow> y)"
  by (simp add: first_of_def find_append_case split: option.splits)

lemma first_of_eq_NR:
  assumes "\<forall>y\<in>set seen. y < NR_CPUS h"
  shows "first_of h seen c = NR_CPUS h \<longleftrightarrow> find (\<lambda>y. topology_core_id h y = c) seen = None"
proof (cases "find (\<lambda>y. topology_core_id h y = c) seen")
  case None
  then show ?thesis by (simp add: first_of_def)
next
  case (Some y)
  then have "y \<in> set seen" by (simp add: find_in_set)
  with assms have "y < NR_CPUS h" by blast
  with Some show ?thesis by (simp add: first_of_def)
qed

lemma first_of_prefix_hit:
  "first_of h (seen @ cpu # cpus) (topology_core_id h cpu)
   = (case find (\<lambda>y. topology_core_id h y = topology_core_id h cpu) seen of
        None \<Rightarrow> cpu | Some y \<Rightarrow> y)"
  by (simp add: first_of_def find_append_case split: option.splits)

lemma init_first_thread_ok:
  assumes "length a = NR_CPUS h"
  shows "init_first_thread h a = Inr (map (first_of h []) [0..<NR_CPUS h])"
proof -
  have "distinct [0..<NR_CPUS h]" by simp
  from slot_loop [OF this, of "\<lambda>cpu v. NR_CPUS h" OOB_first_thread_per_core a]
  show ?thesis using assms by (simp add: init_first_thread_def first_of_def)
qed

lemma first_thread_step_agree:
  assumes c: "topology_core_id h cpu < NR_CPUS h"
    and range: "\<forall>y\<in>set seen. y < NR_CPUS h"
  shows "first_thread_step h cpu (map (first_of h seen) [0..<NR_CPUS h])
         = Inr (map (first_of h (seen @ [cpu])) [0..<NR_CPUS h],
                cpu = first_of h (seen @ [cpu]) (topology_core_id h cpu))"
proof -
  let ?n = "NR_CPUS h" and ?c = "topology_core_id h cpu"
  let ?a = "map (first_of h seen) [0..<?n]"
  let ?a' = "if ?a ! ?c = ?n then ?a[?c := cpu] else ?a"
  have eq: "?a' = map (first_of h (seen @ [cpu])) [0..<?n]"
  proof (rule nth_equalityI)
    show "length ?a' = length (map (first_of h (seen @ [cpu])) [0..<?n])" by simp
  next
    fix i assume "i < length ?a'"
    then have i: "i < ?n" by (simp split: if_splits)
    show "?a' ! i = map (first_of h (seen @ [cpu])) [0..<?n] ! i"
    proof (cases "find (\<lambda>y. topology_core_id h y = ?c) seen")
      case None
      then have "?a ! ?c = ?n" using c by (simp add: first_of_def)
      then have "?a' ! i = (if i = ?c then cpu else first_of h seen i)"
        using i c by (simp add: nth_list_update)
      also have "\<dots> = first_of h (seen @ [cpu]) i"
        unfolding first_of_snoc using None by (auto simp: first_of_def split: option.splits)
      finally show ?thesis using i by simp
    next
      case (Some y)
      then have "?a ! ?c \<noteq> ?n" using c first_of_eq_NR[OF range, of ?c] by simp
      then have "?a' ! i = first_of h seen i" using i by simp
      also have "\<dots> = first_of h (seen @ [cpu]) i"
        unfolding first_of_snoc using Some by (auto simp: first_of_def split: option.splits)
      finally show ?thesis using i by simp
    qed
  qed
  have "first_thread_step h cpu ?a = Inr (?a', cpu = ?a' ! ?c)"
    using c by (simp add: first_thread_step_def Let_def)
  also have "?a' ! ?c = first_of h (seen @ [cpu]) ?c"
    using c by (simp only: eq) simp
  finally show ?thesis by (simp only: eq)
qed

lemma first_thread_step_length:
  "first_thread_step h cpu a = Inr (a', b) \<Longrightarrow>
   length a' = length a \<and> topology_core_id h cpu < length a"
  by (auto simp: first_thread_step_def Let_def split: if_splits)

lemma on_first_thread_loop:
  assumes "\<forall>cpu\<in>set cpus. topology_core_id h cpu < NR_CPUS h"
    and "\<forall>cpu\<in>set seen. cpu < NR_CPUS h"
    and "\<forall>cpu\<in>set cpus. cpu < NR_CPUS h"
  shows "for_each_cpu (on_first_thread h act) cpus (map (first_of h seen) [0..<NR_CPUS h], x)
         = (case for_each_cpu act
                   [cpu \<leftarrow> cpus. first_of h (seen @ cpus) (topology_core_id h cpu) = cpu] x of
              Inl e \<Rightarrow> Inl e
            | Inr x' \<Rightarrow> Inr (map (first_of h (seen @ cpus)) [0..<NR_CPUS h], x'))"
  using assms
proof (induction cpus arbitrary: seen x)
  case Nil
  then show ?case by simp
next
  case (Cons cpu cpus)
  let ?c = "topology_core_id h cpu"
  have c: "?c < NR_CPUS h" using Cons.prems(1) by simp
  have step: "first_thread_step h cpu (map (first_of h seen) [0..<NR_CPUS h])
         = Inr (map (first_of h (seen @ [cpu])) [0..<NR_CPUS h],
                first_of h (seen @ [cpu]) ?c = cpu)"
    using first_thread_step_agree [OF c Cons.prems(2)] by (simp only: eq_commute [of cpu])
  have tail: "\<forall>y\<in>set cpus. topology_core_id h y < NR_CPUS h" using Cons.prems(1) by simp
  have tail': "\<forall>y\<in>set cpus. y < NR_CPUS h" using Cons.prems(3) by simp
  have seen': "\<forall>y\<in>set (seen @ [cpu]). y < NR_CPUS h"
    using Cons.prems(2,3) by simp
  have app: "(seen @ [cpu]) @ cpus = seen @ cpu # cpus" by simp
  have IH': "for_each_cpu (on_first_thread h act) cpus (map (first_of h (seen @ [cpu])) [0..<NR_CPUS h], z)
        = (case for_each_cpu act
                   [y \<leftarrow> cpus. first_of h (seen @ cpu # cpus) (topology_core_id h y) = y] z of
              Inl e \<Rightarrow> Inl e
            | Inr x' \<Rightarrow> Inr (map (first_of h (seen @ cpu # cpus)) [0..<NR_CPUS h], x'))" for z
    using Cons.IH [OF tail seen' tail', of z] unfolding app .
  have hit: "first_of h (seen @ cpu # cpus) ?c = first_of h (seen @ [cpu]) ?c"
    by (simp add: first_of_prefix_hit)
  show ?case
  proof (cases "first_of h (seen @ [cpu]) ?c = cpu")
    case False
    have "for_each_cpu (on_first_thread h act) (cpu # cpus) (map (first_of h seen) [0..<NR_CPUS h], x)
        = for_each_cpu (on_first_thread h act) cpus (map (first_of h (seen @ [cpu])) [0..<NR_CPUS h], x)"
      using False step by (simp add: on_first_thread_def)
    moreover have "[y \<leftarrow> cpu # cpus. first_of h (seen @ cpu # cpus) (topology_core_id h y) = y]
        = [y \<leftarrow> cpus. first_of h (seen @ cpu # cpus) (topology_core_id h y) = y]"
      using False hit by simp
    ultimately show ?thesis by (simp only: IH')
  next
    case True
    have filt: "[y \<leftarrow> cpu # cpus. first_of h (seen @ cpu # cpus) (topology_core_id h y) = y]
        = cpu # [y \<leftarrow> cpus. first_of h (seen @ cpu # cpus) (topology_core_id h y) = y]"
      using True hit by simp
    show ?thesis
    proof (cases "act cpu x")
      case (Inl e)
      have "for_each_cpu (on_first_thread h act) (cpu # cpus) (map (first_of h seen) [0..<NR_CPUS h], x)
        = Inl e"
        using True step Inl by (simp add: on_first_thread_def)
      then show ?thesis using Inl by (simp only: filt) simp
    next
      case (Inr x')
      have "for_each_cpu (on_first_thread h act) (cpu # cpus) (map (first_of h seen) [0..<NR_CPUS h], x)
        = for_each_cpu (on_first_thread h act) cpus (map (first_of h (seen @ [cpu])) [0..<NR_CPUS h], x')"
        using True step Inr by (simp add: on_first_thread_def)
      then show ?thesis using Inr by (simp only: filt IH') simp
    qed
  qed
qed

lemma on_first_thread_loop_Inr:
  "for_each_cpu (on_first_thread h act) cpus (a, x) = Inr r \<Longrightarrow>
   \<forall>cpu\<in>set cpus. topology_core_id h cpu < length a"
proof (induction cpus arbitrary: a x)
  case Nil
  then show ?case by simp
next
  case (Cons cpu cpus)
  from Cons.prems obtain a' x' where
    s: "on_first_thread h act cpu (a, x) = Inr (a', x')"
    and rest: "for_each_cpu (on_first_thread h act) cpus (a', x') = Inr r"
    by (auto split: sum.splits)
  from s obtain b where "first_thread_step h cpu a = Inr (a', b)"
    by (auto simp: on_first_thread_def split: sum.splits if_splits)
  then have "length a' = length a" "topology_core_id h cpu < length a"
    by (auto dest: first_thread_step_length)
  with Cons.IH [OF rest] show ?case by simp
qed

section \<open>The representatives\<close>

text \<open>
  The online CPUs are visited in ascending order, so the first CPU with a core id is the
  lowest-numbered one: the CPUs on which the loops act are the representatives.
\<close>

lemma online_cpus_set: "cpu \<in> set (online_cpus h) \<longleftrightarrow> cpu < NR_CPUS h \<and> cpu_online h cpu"
  by (auto simp: online_cpus_def)

lemma lowest_online_Some:
  "lowest_online h c = Some x \<longleftrightarrow>
   x < NR_CPUS h \<and> cpu_online h x \<and> topology_core_id h x = c
   \<and> (\<forall>y<x. cpu_online h y \<longrightarrow> topology_core_id h y \<noteq> c)"
proof
  assume "lowest_online h c = Some x"
  from find_upt_Some [OF this [unfolded lowest_online_def]]
  show "x < NR_CPUS h \<and> cpu_online h x \<and> topology_core_id h x = c
   \<and> (\<forall>y<x. cpu_online h y \<longrightarrow> topology_core_id h y \<noteq> c)"
    by blast
next
  assume r: "x < NR_CPUS h \<and> cpu_online h x \<and> topology_core_id h x = c
   \<and> (\<forall>y<x. cpu_online h y \<longrightarrow> topology_core_id h y \<noteq> c)"
  let ?P = "\<lambda>cpu. cpu_online h cpu \<and> topology_core_id h cpu = c"
  have "find ?P [0..<NR_CPUS h] \<noteq> None"
    using r by (auto simp: find_upt_None)
  then obtain z where z: "find ?P [0..<NR_CPUS h] = Some z" by blast
  from find_upt_Some [OF z] have "z < NR_CPUS h" "?P z" "\<forall>y<z. \<not> ?P y" by blast+
  with r have "z = x" by (metis linorder_neqE_nat)
  with z show "lowest_online h c = Some x" by (simp add: lowest_online_def)
qed

lemma lowest_online_None:
  "lowest_online h c = None \<longleftrightarrow>
   (\<forall>cpu<NR_CPUS h. cpu_online h cpu \<longrightarrow> topology_core_id h cpu \<noteq> c)"
  by (auto simp: lowest_online_def find_upt_None)

lemma first_of_online:
  "first_of h (online_cpus h) c = (case lowest_online h c of None \<Rightarrow> NR_CPUS h | Some cpu \<Rightarrow> cpu)"
  by (simp add: first_of_def online_cpus_def lowest_online_def find_filter)

lemma first_threads_online:
  "[cpu \<leftarrow> online_cpus h. first_of h (online_cpus h) (topology_core_id h cpu) = cpu]
   = representatives h"
proof -
  have "cpu_online h cpu \<and> first_of h (online_cpus h) (topology_core_id h cpu) = cpu
        \<longleftrightarrow> lowest_online h (topology_core_id h cpu) = Some cpu"
    if "cpu < NR_CPUS h" for cpu
  proof (cases "lowest_online h (topology_core_id h cpu)")
    case None
    then show ?thesis using that by (auto simp: first_of_online)
  next
    case (Some z)
    then have "cpu_online h z" by (simp add: lowest_online_Some)
    with Some show ?thesis by (auto simp: first_of_online)
  qed
  then show ?thesis
    unfolding online_cpus_def representatives_def filter_filter
    by (intro filter_cong) auto
qed

lemma representatives_props:
  "distinct (representatives h)" "sorted (representatives h)"
  "cpu \<in> set (representatives h) \<longleftrightarrow> lowest_online h (topology_core_id h cpu) = Some cpu"
  by (auto simp: representatives_def lowest_online_Some sorted_wrt_filter)

lemma representatives_lt: "cpu \<in> set (representatives h) \<Longrightarrow> cpu < NR_CPUS h"
  by (simp add: representatives_def)

lemma representatives_Nil:
  "representatives h = [] \<longleftrightarrow> (\<forall>cpu<NR_CPUS h. \<not> cpu_online h cpu)"
proof
  assume e: "representatives h = []"
  show "\<forall>cpu<NR_CPUS h. \<not> cpu_online h cpu"
  proof (intro allI impI notI)
    fix cpu assume c: "cpu < NR_CPUS h" "cpu_online h cpu"
    then have "lowest_online h (topology_core_id h cpu) \<noteq> None"
      by (auto simp: lowest_online_None)
    then obtain z where z: "lowest_online h (topology_core_id h cpu) = Some z" by blast
    then have "topology_core_id h z = topology_core_id h cpu"
      by (simp add: lowest_online_Some)
    with z have "z \<in> set (representatives h)"
      by (simp add: representatives_props(3))
    with e show False by simp
  qed
next
  assume "\<forall>cpu<NR_CPUS h. \<not> cpu_online h cpu"
  then show "representatives h = []"
    by (auto simp: representatives_def filter_empty_conv lowest_online_Some)
qed

lemma first_thread_loop_online:
  assumes "\<forall>cpu<NR_CPUS h. cpu_online h cpu \<longrightarrow> topology_core_id h cpu < NR_CPUS h"
  shows "for_each_cpu (on_first_thread h act) (online_cpus h) (map (first_of h []) [0..<NR_CPUS h], x)
         = (case for_each_cpu act (representatives h) x of
              Inl e \<Rightarrow> Inl e
            | Inr x' \<Rightarrow> Inr (map (first_of h (online_cpus h)) [0..<NR_CPUS h], x'))"
proof -
  have 1: "\<forall>cpu\<in>set (online_cpus h). topology_core_id h cpu < NR_CPUS h"
    using assms by (simp add: online_cpus_set)
  have 2: "\<forall>cpu\<in>set []. cpu < NR_CPUS h" by simp
  have 3: "\<forall>cpu\<in>set (online_cpus h). cpu < NR_CPUS h" by (simp add: online_cpus_set)
  from on_first_thread_loop [OF 1 2 3, of act x]
  show ?thesis unfolding append_Nil first_threads_online .
qed

lemma first_thread_loop_Inr_bounded:
  assumes "for_each_cpu (on_first_thread h act) (online_cpus h) (a, x) = Inr r"
    and "length a = NR_CPUS h"
  shows "\<forall>cpu<NR_CPUS h. cpu_online h cpu \<longrightarrow> topology_core_id h cpu < NR_CPUS h"
  using on_first_thread_loop_Inr [OF assms(1)] assms(2) by (simp add: online_cpus_set)

lemma kmalloc_array_length: "length (kmalloc_array n junk) = n"
  by (simp add: kmalloc_array_def)

section \<open>The sampler pass\<close>

text \<open>
  With core ids in range the sampler is the update of the slots of the representatives;
  a run that returns has had core ids in range.
\<close>

lemma sample_cpu_shape: "sample_cpu h = on_first_thread h (sample_act h)"
  by (auto simp: sample_cpu_def on_first_thread_def sample_act_def fun_eq_iff split: sum.splits)

lemma sample_act_loop:
  assumes "distinct cpus"
  shows "for_each_cpu (sample_act h) cpus cpu_freqs
         = (if \<forall>cpu\<in>set cpus. cpu < length cpu_freqs
            then Inr (map (\<lambda>i. if i \<in> set cpus
                                 then update_slot (msr_freq (rdmsrl_on_cpu h i)) (cpu_freqs ! i)
                                 else cpu_freqs ! i) [0..<length cpu_freqs])
            else Inl OOB_cpu_freqs)"
proof -
  have "sample_act h = (\<lambda>cpu a. if cpu < length a
           then Inr (a[cpu := update_slot (msr_freq (rdmsrl_on_cpu h cpu)) (a ! cpu)])
           else Inl OOB_cpu_freqs)"
    by (simp add: sample_act_def fun_eq_iff)
  then show ?thesis
    using slot_loop [OF assms, of "\<lambda>cpu. update_slot (msr_freq (rdmsrl_on_cpu h cpu))"
        OOB_cpu_freqs cpu_freqs]
    by simp
qed

lemma sample_act_error: "sample_act h cpu s \<noteq> Inl OOB_first_thread_per_core"
  by (simp add: sample_act_def)

lemma sample_loops_bounded:
  assumes "\<forall>cpu<NR_CPUS h. cpu_online h cpu \<longrightarrow> topology_core_id h cpu < NR_CPUS h"
    and "length a = NR_CPUS h"
  shows "sample_loops h a cpu_freqs
         = (case for_each_cpu (sample_act h) (representatives h) cpu_freqs of
              Inl e \<Rightarrow> Inl e
            | Inr f \<Rightarrow> Inr (map (first_of h (online_cpus h)) [0..<NR_CPUS h], f))"
  by (simp add: sample_loops_def init_first_thread_ok [OF assms(2)] sample_cpu_shape
      first_thread_loop_online [OF assms(1)])

lemma sample_loops_Inr_bounded:
  assumes "sample_loops h a cpu_freqs = Inr r" and "length a = NR_CPUS h"
  shows "\<forall>cpu<NR_CPUS h. cpu_online h cpu \<longrightarrow> topology_core_id h cpu < NR_CPUS h"
proof -
  from assms have "for_each_cpu (on_first_thread h (sample_act h)) (online_cpus h)
      (map (first_of h []) [0..<NR_CPUS h], cpu_freqs) = Inr r"
    by (simp add: sample_loops_def init_first_thread_ok sample_cpu_shape)
  from first_thread_loop_Inr_bounded [OF this] show ?thesis by simp
qed

lemma sample_loops_total:
  assumes b: "\<forall>cpu<NR_CPUS h. cpu_online h cpu \<longrightarrow> topology_core_id h cpu < NR_CPUS h"
    and a: "length a = NR_CPUS h"
    and f: "NR_CPUS h \<le> length cpu_freqs"
  shows "\<exists>cpu_freqs'. sample_loops h a cpu_freqs
           = Inr (map (\<lambda>c. case lowest_online h c of None \<Rightarrow> NR_CPUS h | Some cpu \<Rightarrow> cpu)
                    [0..<NR_CPUS h], cpu_freqs')"
proof -
  have r: "\<forall>cpu\<in>set (representatives h). cpu < length cpu_freqs"
    using f by (auto dest: representatives_lt)
  have m: "map (first_of h (online_cpus h)) [0..<NR_CPUS h]
           = map (\<lambda>c. case lowest_online h c of None \<Rightarrow> NR_CPUS h | Some cpu \<Rightarrow> cpu) [0..<NR_CPUS h]"
    by (simp add: first_of_online)
  show ?thesis
    using r by (simp add: sample_loops_bounded [OF b a] sample_act_loop [OF representatives_props(1)] m)
qed

lemma read_cpu_frequencies_Inr:
  assumes "read_cpu_frequencies h (Some junk) cpu_freqs = Inr cpu_freqs'"
  shows "cpu_freqs' = map (\<lambda>i. if i \<in> set (representatives h)
                                 then update_slot (msr_freq (rdmsrl_on_cpu h i)) (cpu_freqs ! i)
                                 else cpu_freqs ! i) [0..<length cpu_freqs]"
proof -
  let ?a = "kmalloc_array (NR_CPUS h) junk"
  from assms obtain a' where r: "sample_loops h ?a cpu_freqs = Inr (a', cpu_freqs')"
    by (auto simp: read_cpu_frequencies_def split: sum.splits)
  have b: "\<forall>cpu<NR_CPUS h. cpu_online h cpu \<longrightarrow> topology_core_id h cpu < NR_CPUS h"
    by (rule sample_loops_Inr_bounded [OF r kmalloc_array_length])
  from r have "for_each_cpu (sample_act h) (representatives h) cpu_freqs = Inr cpu_freqs'"
    by (simp add: sample_loops_bounded [OF b kmalloc_array_length] split: sum.splits)
  then show ?thesis
    by (simp add: sample_act_loop [OF representatives_props(1)] split: if_splits)
qed

lemma read_cpu_frequencies_length:
  "read_cpu_frequencies h alloc cpu_freqs = Inr cpu_freqs' \<Longrightarrow> length cpu_freqs' = length cpu_freqs"
proof (cases alloc)
  case None
  then show "read_cpu_frequencies h alloc cpu_freqs = Inr cpu_freqs' \<Longrightarrow> ?thesis"
    by (simp add: read_cpu_frequencies_def)
next
  case (Some junk)
  assume "read_cpu_frequencies h alloc cpu_freqs = Inr cpu_freqs'"
  with Some have "read_cpu_frequencies h (Some junk) cpu_freqs = Inr cpu_freqs'" by simp
  from read_cpu_frequencies_Inr [OF this] show ?thesis by simp
qed

lemma read_cpu_frequencies_nth:
  assumes "read_cpu_frequencies h alloc cpu_freqs = Inr cpu_freqs'" and "cpu < length cpu_freqs"
  shows "cpu_freqs' ! cpu =
           (if alloc \<noteq> None \<and> lowest_online h (topology_core_id h cpu) = Some cpu
            then update_slot (msr_freq (rdmsrl_on_cpu h cpu)) (cpu_freqs ! cpu)
            else cpu_freqs ! cpu)"
proof (cases alloc)
  case None
  with assms show ?thesis by (simp add: read_cpu_frequencies_def)
next
  case (Some junk)
  with assms(1) have "cpu_freqs' = map (\<lambda>i. if i \<in> set (representatives h)
                                 then update_slot (msr_freq (rdmsrl_on_cpu h i)) (cpu_freqs ! i)
                                 else cpu_freqs ! i) [0..<length cpu_freqs]"
    by (simp add: read_cpu_frequencies_Inr)
  with assms(2) Some show ?thesis by (simp add: representatives_props(3))
qed

lemma example_read:
  "read_cpu_frequencies example_host (Some (\<lambda>i. 0))
     (replicate 4 \<lparr>cur_freq = 0, max_freq = 0, min_freq = 0\<rparr>)
   = Inr [\<lparr>cur_freq = 2500, max_freq = 2500, min_freq = 2500\<rparr>,
          \<lparr>cur_freq = 0, max_freq = 0, min_freq = 0\<rparr>,
          \<lparr>cur_freq = 1800, max_freq = 1800, min_freq = 1800\<rparr>,
          \<lparr>cur_freq = 0, max_freq = 0, min_freq = 0\<rparr>]"
  by code_simp

lemma example_sample_loops:
  "sample_loops example_host [7, 7, 7, 7] example_freqs = Inr ([0, 2, 4, 4], example_freqs)"
  by code_simp

text \<open>
  What the resolver does with core ids in range. When the core id of every online CPU is
  below \<^verbatim>\<open>NR_CPUS\<close> (the scratch array and the store having \<^verbatim>\<open>NR_CPUS\<close> entries), the
  pass returns, and its scratch array holds for every core id \<open>c\<close> below \<^verbatim>\<open>NR_CPUS\<close>
  exactly one entry: the lowest-numbered online CPU with core id \<open>c\<close> when some online
  CPU has this core id, and \<^verbatim>\<open>NR_CPUS\<close> (no representative) otherwise.
\<close>

theorem resolver_lowest_online:
  assumes "\<forall>cpu<NR_CPUS h. cpu_online h cpu \<longrightarrow> topology_core_id h cpu < NR_CPUS h"
    and "length a = NR_CPUS h"
    and "NR_CPUS h \<le> length cpu_freqs"
  shows "\<exists>a' cpu_freqs'.
           sample_loops h a cpu_freqs = Inr (a', cpu_freqs') \<and> length a' = NR_CPUS h \<and>
           (\<forall>c<NR_CPUS h.
              if \<exists>cpu<NR_CPUS h. cpu_online h cpu \<and> topology_core_id h cpu = c
              then a' ! c < NR_CPUS h \<and> cpu_online h (a' ! c) \<and> topology_core_id h (a' ! c) = c
                   \<and> (\<forall>cpu<NR_CPUS h. cpu_online h cpu \<and> topology_core_id h cpu = c \<longrightarrow> a' ! c \<le> cpu)
              else a' ! c = NR_CPUS h)"
proof -
  define a' where
    "a' = map (\<lambda>c. case lowest_online h c of None \<Rightarrow> NR_CPUS h | Some cpu \<Rightarrow> cpu) [0..<NR_CPUS h]"
  from sample_loops_total [OF assms] obtain cpu_freqs'
    where s: "sample_loops h a cpu_freqs = Inr (a', cpu_freqs')"
    unfolding a'_def by blast
  have len: "length a' = NR_CPUS h" by (simp add: a'_def)
  have nth: "a' ! c = (case lowest_online h c of None \<Rightarrow> NR_CPUS h | Some cpu \<Rightarrow> cpu)"
    if "c < NR_CPUS h" for c
    using that by (simp add: a'_def)
  have "\<forall>c<NR_CPUS h.
          if \<exists>cpu<NR_CPUS h. cpu_online h cpu \<and> topology_core_id h cpu = c
          then a' ! c < NR_CPUS h \<and> cpu_online h (a' ! c) \<and> topology_core_id h (a' ! c) = c
               \<and> (\<forall>cpu<NR_CPUS h. cpu_online h cpu \<and> topology_core_id h cpu = c \<longrightarrow> a' ! c \<le> cpu)
          else a' ! c = NR_CPUS h"
  proof (intro allI impI)
    fix c assume c: "c < NR_CPUS h"
    show "if \<exists>cpu<NR_CPUS h. cpu_online h cpu \<and> topology_core_id h cpu = c
          then a' ! c < NR_CPUS h \<and> cpu_online h (a' ! c) \<and> topology_core_id h (a' ! c) = c
               \<and> (\<forall>cpu<NR_CPUS h. cpu_online h cpu \<and> topology_core_id h cpu = c \<longrightarrow> a' ! c \<le> cpu)
          else a' ! c = NR_CPUS h"
    proof (cases "lowest_online h c")
      case None
      then have "\<not> (\<exists>cpu<NR_CPUS h. cpu_online h cpu \<and> topology_core_id h cpu = c)"
        by (auto simp: lowest_online_None)
      with None show ?thesis by (simp add: nth [OF c])
    next
      case (Some x)
      then have x: "x < NR_CPUS h" "cpu_online h x" "topology_core_id h x = c"
        "\<forall>y<x. cpu_online h y \<longrightarrow> topology_core_id h y \<noteq> c"
        by (simp_all add: lowest_online_Some)
      then have low: "\<forall>cpu<NR_CPUS h. cpu_online h cpu \<and> topology_core_id h cpu = c \<longrightarrow> x \<le> cpu"
        by (meson not_le_imp_less)
      from x have e: "\<exists>cpu<NR_CPUS h. cpu_online h cpu \<and> topology_core_id h cpu = c" by blast
      have "a' ! c = x" using Some by (simp add: nth [OF c])
      with e x low show ?thesis by simp
    qed
  qed
  with s len show ?thesis by blast
qed

theorem resolver_lowest_online_witness:
  "list_all (\<lambda>cpu. topology_core_id example_host cpu < NR_CPUS example_host)
     (online_cpus example_host)
   \<and> length [7, 7, 7, 7 :: nat] = NR_CPUS example_host
   \<and> NR_CPUS example_host \<le> length example_freqs
   \<and> (\<exists>a' cpu_freqs'.
         sample_loops example_host [7, 7, 7, 7] example_freqs = Inr (a', cpu_freqs')
         \<and> a' ! 0 = 0 \<and> a' ! 1 = 2 \<and> a' ! 2 = NR_CPUS example_host \<and> a' ! 3 = NR_CPUS example_host)"
proof -
  have b: "\<forall>cpu<NR_CPUS example_host. cpu_online example_host cpu
       \<longrightarrow> topology_core_id example_host cpu < NR_CPUS example_host"
    by (auto simp: example_host_def)
  have la: "list_all (\<lambda>cpu. topology_core_id example_host cpu < NR_CPUS example_host)
     (online_cpus example_host)"
    by (simp add: list_all_iff online_cpus_set b)
  have n: "NR_CPUS example_host = 4" by (simp add: example_host_def)
  have a: "length [7, 7, 7, 7 :: nat] = NR_CPUS example_host" by (simp add: example_host_def)
  have f: "NR_CPUS example_host \<le> length example_freqs"
    by (simp add: example_host_def example_freqs_def)
  from resolver_lowest_online [OF b a f] have "\<exists>a' cpu_freqs'.
         sample_loops example_host [7, 7, 7, 7] example_freqs = Inr (a', cpu_freqs')" by blast
  then have "\<exists>a' cpu_freqs'.
         sample_loops example_host [7, 7, 7, 7] example_freqs = Inr (a', cpu_freqs')
         \<and> a' ! 0 = 0 \<and> a' ! 1 = 2 \<and> a' ! 2 = NR_CPUS example_host \<and> a' ! 3 = NR_CPUS example_host"
    by (simp add: example_sample_loops n)
  with la a f show ?thesis by blast
qed

text \<open>
  Claim C2 does not hold of the code. The scratch array has \<^verbatim>\<open>NR_CPUS\<close> entries and
  lines 51--56 index it with the core id, unchecked. With \<^verbatim>\<open>NR_CPUS = 4\<close> and four
  online CPUs whose core ids are 0, 1, 8 and 9, the claim asks for the representatives
  CPU 2 of core 8 and CPU 3 of core 9; the pass reads \<^verbatim>\<open>first_thread_per_core[8]\<close>,
  outside the array of four entries, and produces no representatives.
\<close>

theorem resolver_out_of_bounds:
  "sample_loops sparse_host (kmalloc_array (NR_CPUS sparse_host) (\<lambda>i. 0))
     (replicate 4 \<lparr>cur_freq = 0, max_freq = 0, min_freq = 0\<rparr>)
   = Inl OOB_first_thread_per_core"
  by code_simp

text \<open>
  Claim C8. A refresh cycle that returns writes only the slots of the representative
  CPUs: the slot of every CPU that is not the lowest-numbered online CPU of its core (a
  sibling thread, an offline CPU, a CPU number from \<^verbatim>\<open>NR_CPUS\<close> on) holds after the
  cycle exactly the record it held before.
\<close>

theorem sampler_frame:
  assumes "read_cpu_frequencies h alloc cpu_freqs = Inr cpu_freqs'"
    and "cpu < length cpu_freqs"
    and "\<not> (cpu < NR_CPUS h \<and> cpu_online h cpu
            \<and> (\<forall>y<cpu. cpu_online h y \<longrightarrow> topology_core_id h y \<noteq> topology_core_id h cpu))"
  shows "length cpu_freqs' = length cpu_freqs \<and> cpu_freqs' ! cpu = cpu_freqs ! cpu"
proof -
  have "lowest_online h (topology_core_id h cpu) \<noteq> Some cpu"
    using assms(3) by (simp add: lowest_online_Some)
  then show ?thesis
    using read_cpu_frequencies_nth [OF assms(1,2)] read_cpu_frequencies_length [OF assms(1)]
    by simp
qed

theorem sampler_frame_witness:
  "read_cpu_frequencies example_host (Some (\<lambda>i. 0))
         (replicate 4 \<lparr>cur_freq = 0, max_freq = 0, min_freq = 0\<rparr>)
       = Inr [\<lparr>cur_freq = 2500, max_freq = 2500, min_freq = 2500\<rparr>,
              \<lparr>cur_freq = 0, max_freq = 0, min_freq = 0\<rparr>,
              \<lparr>cur_freq = 1800, max_freq = 1800, min_freq = 1800\<rparr>,
              \<lparr>cur_freq = 0, max_freq = 0, min_freq = 0\<rparr>]
   \<and> (1::nat) < length (replicate 4 \<lparr>cur_freq = 0, max_freq = 0, min_freq = 0\<rparr>)
   \<and> \<not> (1 < NR_CPUS example_host \<and> cpu_online example_host 1
            \<and> (\<forall>y<1. cpu_online example_host y
                  \<longrightarrow> topology_core_id example_host y \<noteq> topology_core_id example_host 1))
   \<and> [\<lparr>cur_freq = 2500, max_freq = 2500, min_freq = 2500\<rparr>,
              \<lparr>cur_freq = 0, max_freq = 0, min_freq = 0\<rparr>,
              \<lparr>cur_freq = 1800, max_freq = 1800, min_freq = 1800\<rparr>,
              \<lparr>cur_freq = 0, max_freq = 0, min_freq = 0\<rparr>] ! 1
       = replicate 4 \<lparr>cur_freq = 0, max_freq = 0, min_freq = (0 :: 32 word)\<rparr> ! 1"
proof -
  have r: "read_cpu_frequencies example_host (Some (\<lambda>i. 0))
         (replicate 4 \<lparr>cur_freq = 0, max_freq = 0, min_freq = 0\<rparr>)
       = Inr [\<lparr>cur_freq = 2500, max_freq = 2500, min_freq = 2500\<rparr>,
              \<lparr>cur_freq = 0, max_freq = 0, min_freq = 0\<rparr>,
              \<lparr>cur_freq = 1800, max_freq = 1800, min_freq = 1800\<rparr>,
              \<lparr>cur_freq = 0, max_freq = 0, min_freq = 0\<rparr>]"
    by (rule example_read)
  have l: "(1::nat) < length (replicate 4 \<lparr>cur_freq = 0, max_freq = 0, min_freq = (0 :: 32 word)\<rparr>)"
    by simp
  have n: "\<not> (1 < NR_CPUS example_host \<and> cpu_online example_host 1
            \<and> (\<forall>y<1. cpu_online example_host y
                  \<longrightarrow> topology_core_id example_host y \<noteq> topology_core_id example_host 1))"
    by (simp add: example_host_def)
  from sampler_frame [OF r l n] r l n show ?thesis by simp
qed

section \<open>The store from initialisation on\<close>

text \<open>What the initialisation of \<^verbatim>\<open>my_module_init\<close> leaves in the store.\<close>

lemma init_min_result:
  "init_min h (kmalloc_array (NR_CPUS h) junk)
   = Inr (map (\<lambda>i. if cpu_possible h i then (junk i)\<lparr>min_freq := 0\<rparr> else junk i) [0..<NR_CPUS h])"
proof -
  have d: "distinct (possible_cpus h)" by (simp add: possible_cpus_def)
  have b: "\<forall>cpu\<in>set (possible_cpus h). cpu < length (kmalloc_array (NR_CPUS h) junk)"
    by (simp add: possible_cpus_def kmalloc_array_def)
  have "init_min h (kmalloc_array (NR_CPUS h) junk)
        = Inr (map (\<lambda>i. if i \<in> set (possible_cpus h)
                          then (kmalloc_array (NR_CPUS h) junk ! i)\<lparr>min_freq := 0\<rparr>
                          else kmalloc_array (NR_CPUS h) junk ! i)
                 [0..<length (kmalloc_array (NR_CPUS h) junk)])"
    unfolding init_min_def
    using slot_loop [OF d, of "\<lambda>cpu r. r\<lparr>min_freq := 0\<rparr>" OOB_cpu_freqs
        "kmalloc_array (NR_CPUS h) junk"] b
    by simp
  also have "\<dots> = Inr (map (\<lambda>i. if cpu_possible h i then (junk i)\<lparr>min_freq := 0\<rparr> else junk i)
                        [0..<NR_CPUS h])"
    by (simp add: kmalloc_array_def possible_cpus_def)
  finally show ?thesis .
qed

lemma reachable_slot_inv:
  assumes "reachable n possible s"
  shows "length s = n \<and> (\<forall>cpu<n. possible cpu \<longrightarrow> slot_inv (s ! cpu))"
  using assms
proof (induction rule: reachable.induct)
  case (init h junk s)
  from init(3) init(1)
  have "s = map (\<lambda>i. if cpu_possible h i then (junk i)\<lparr>min_freq := 0\<rparr> else junk i) [0..<NR_CPUS h]"
    using init_min_result [of h junk] by simp
  with init(1,2) show ?case by (auto simp: slot_inv_def)
next
  case (cycle s h alloc s')
  have len: "length s' = length s" by (rule read_cpu_frequencies_length [OF cycle(3)])
  have "slot_inv (s' ! cpu)" if c: "cpu < n" "possible cpu" for cpu
  proof -
    from c cycle.IH have i: "slot_inv (s ! cpu)" and l: "cpu < length s" by simp_all
    show ?thesis
      using i update_slot_inv [of "msr_freq (rdmsrl_on_cpu h cpu)" "s ! cpu"]
      by (simp add: read_cpu_frequencies_nth [OF cycle(3) l] slot_inv_def)
  qed
  with len cycle.IH show ?case by simp
qed

text \<open>
  The example machine from a block of memory that holds the byte \<open>0x6b\<close> throughout (the
  pattern of slab poisoning): the store after the initialisation of \<^verbatim>\<open>my_module_init\<close>,
  and after the first refresh.
\<close>

lemma example_init:
  "init_min example_host
     (kmalloc_array 4 (\<lambda>i. \<lparr>cur_freq = 0x6b6b6b6b, max_freq = 0x6b6b6b6b, min_freq = 0x6b6b6b6b\<rparr>))
   = Inr (replicate 4 \<lparr>cur_freq = 0x6b6b6b6b, max_freq = 0x6b6b6b6b, min_freq = 0\<rparr>)"
  by code_simp

lemma example_first_cycle:
  "read_cpu_frequencies example_host (Some (\<lambda>i. 0))
     (replicate 4 \<lparr>cur_freq = 0x6b6b6b6b, max_freq = 0x6b6b6b6b, min_freq = 0\<rparr>)
   = Inr [\<lparr>cur_freq = 2500, max_freq = 0x6b6b6b6b, min_freq = 2500\<rparr>,
          \<lparr>cur_freq = 0x6b6b6b6b, max_freq = 0x6b6b6b6b, min_freq = 0\<rparr>,
          \<lparr>cur_freq = 1800, max_freq = 0x6b6b6b6b, min_freq = 1800\<rparr>,
          \<lparr>cur_freq = 0x6b6b6b6b, max_freq = 0x6b6b6b6b, min_freq = 0\<rparr>]"
  by code_simp

lemma example_reachable:
  "reachable 4 (\<lambda>cpu. True)
     [\<lparr>cur_freq = 2500, max_freq = 0x6b6b6b6b, min_freq = 2500\<rparr>,
      \<lparr>cur_freq = 0x6b6b6b6b, max_freq = 0x6b6b6b6b, min_freq = 0\<rparr>,
      \<lparr>cur_freq = 1800, max_freq = 0x6b6b6b6b, min_freq = 1800\<rparr>,
      \<lparr>cur_freq = 0x6b6b6b6b, max_freq = 0x6b6b6b6b, min_freq = 0\<rparr>]"
proof -
  have n: "NR_CPUS example_host = 4" and p: "cpu_possible example_host = (\<lambda>cpu. True)"
    by (simp_all add: example_host_def)
  have "reachable 4 (\<lambda>cpu. True)
          (replicate 4 \<lparr>cur_freq = 0x6b6b6b6b, max_freq = 0x6b6b6b6b, min_freq = 0\<rparr>)"
    by (rule reachable.init [OF n p example_init])
  from reachable.cycle [OF this n example_first_cycle] show ?thesis .
qed

text \<open>
  Claim C1, amended. A slot satisfies the invariant when its minimum is 0 or
  minimum \<open>\<le>\<close> current \<open>\<le>\<close> maximum. The update rule establishes it for every
  earlier content of the slot and every sample. A refresh cycle that returns keeps the
  size of the store, keeps the invariant of every slot that had it, and leaves every slot
  it samples (the lowest-numbered online CPU of a core) with
  minimum \<open>\<le>\<close> current \<open>\<le>\<close> maximum. Hence in every store the module reaches, from
  its initialisation on and after any number of refresh cycles, the slot of every possible
  CPU satisfies the invariant.
\<close>

theorem sampler_slot_invariant:
  "slot_inv (update_slot freq r) \<and>
   (read_cpu_frequencies h alloc cpu_freqs = Inr cpu_freqs' \<longrightarrow>
      length cpu_freqs' = length cpu_freqs \<and>
      (\<forall>cpu<length cpu_freqs.
          (slot_inv (cpu_freqs ! cpu) \<longrightarrow> slot_inv (cpu_freqs' ! cpu)) \<and>
          (alloc \<noteq> None \<and> lowest_online h (topology_core_id h cpu) = Some cpu
             \<longrightarrow> min_freq (cpu_freqs' ! cpu) \<le> cur_freq (cpu_freqs' ! cpu)
                 \<and> cur_freq (cpu_freqs' ! cpu) \<le> max_freq (cpu_freqs' ! cpu)))) \<and>
   (reachable n possible s \<longrightarrow>
      length s = n \<and> (\<forall>cpu<n. possible cpu \<longrightarrow> slot_inv (s ! cpu)))"
proof (intro conjI impI allI)
  show "slot_inv (update_slot freq r)"
    using update_slot_inv [of freq r] by (simp add: slot_inv_def)
next
  assume "read_cpu_frequencies h alloc cpu_freqs = Inr cpu_freqs'"
  then show "length cpu_freqs' = length cpu_freqs" by (rule read_cpu_frequencies_length)
next
  fix cpu
  assume r: "read_cpu_frequencies h alloc cpu_freqs = Inr cpu_freqs'"
    and c: "cpu < length cpu_freqs" and i: "slot_inv (cpu_freqs ! cpu)"
  show "slot_inv (cpu_freqs' ! cpu)"
    using i update_slot_inv [of "msr_freq (rdmsrl_on_cpu h cpu)" "cpu_freqs ! cpu"]
    by (simp add: read_cpu_frequencies_nth [OF r c] slot_inv_def)
next
  fix cpu
  assume r: "read_cpu_frequencies h alloc cpu_freqs = Inr cpu_freqs'"
    and c: "cpu < length cpu_freqs"
    and l: "alloc \<noteq> None \<and> lowest_online h (topology_core_id h cpu) = Some cpu"
  show "min_freq (cpu_freqs' ! cpu) \<le> cur_freq (cpu_freqs' ! cpu)"
    using l update_slot_inv [of "msr_freq (rdmsrl_on_cpu h cpu)" "cpu_freqs ! cpu"]
    by (simp add: read_cpu_frequencies_nth [OF r c])
  show "cur_freq (cpu_freqs' ! cpu) \<le> max_freq (cpu_freqs' ! cpu)"
    using l update_slot_inv [of "msr_freq (rdmsrl_on_cpu h cpu)" "cpu_freqs ! cpu"]
    by (simp add: read_cpu_frequencies_nth [OF r c])
next
  assume "reachable n possible s"
  then show "length s = n" by (simp add: reachable_slot_inv)
next
  fix cpu
  assume "reachable n possible s" "cpu < n" "possible cpu"
  then show "slot_inv (s ! cpu)" by (simp add: reachable_slot_inv)
qed

theorem sampler_slot_invariant_witness:
  "slot_inv (update_slot 2500 \<lparr>cur_freq = 0, max_freq = 0, min_freq = 0\<rparr>)
   \<and> read_cpu_frequencies example_host (Some (\<lambda>i. 0))
         (replicate 4 \<lparr>cur_freq = 0, max_freq = 0, min_freq = 0\<rparr>)
       = Inr [\<lparr>cur_freq = 2500, max_freq = 2500, min_freq = 2500\<rparr>,
              \<lparr>cur_freq = 0, max_freq = 0, min_freq = 0\<rparr>,
              \<lparr>cur_freq = 1800, max_freq = 1800, min_freq = 1800\<rparr>,
              \<lparr>cur_freq = 0, max_freq = 0, min_freq = 0\<rparr>]
   \<and> (2::nat) < length (replicate 4 \<lparr>cur_freq = 0, max_freq = 0, min_freq = 0\<rparr>)
   \<and> slot_inv (replicate 4 \<lparr>cur_freq = 0, max_freq = 0, min_freq = 0\<rparr> ! 2)
   \<and> Some (\<lambda>i. 0 :: nat) \<noteq> None
   \<and> lowest_online example_host (topology_core_id example_host 2) = Some 2
   \<and> slot_inv ([\<lparr>cur_freq = 2500, max_freq = 2500, min_freq = 2500\<rparr>,
              \<lparr>cur_freq = 0, max_freq = 0, min_freq = 0\<rparr>,
              \<lparr>cur_freq = 1800, max_freq = 1800, min_freq = 1800\<rparr>,
              \<lparr>cur_freq = 0, max_freq = 0, min_freq = 0\<rparr>] ! 2)
   \<and> min_freq \<lparr>cur_freq = 1800, max_freq = 1800, min_freq = 1800\<rparr>
       \<le> cur_freq \<lparr>cur_freq = 1800, max_freq = 1800, min_freq = (1800 :: 32 word)\<rparr>
   \<and> reachable 4 (\<lambda>cpu. True)
         [\<lparr>cur_freq = 2500, max_freq = 0x6b6b6b6b, min_freq = 2500\<rparr>,
          \<lparr>cur_freq = 0x6b6b6b6b, max_freq = 0x6b6b6b6b, min_freq = 0\<rparr>,
          \<lparr>cur_freq = 1800, max_freq = 0x6b6b6b6b, min_freq = 1800\<rparr>,
          \<lparr>cur_freq = 0x6b6b6b6b, max_freq = 0x6b6b6b6b, min_freq = 0\<rparr>]
   \<and> slot_inv \<lparr>cur_freq = 2500, max_freq = 0x6b6b6b6b, min_freq = 2500\<rparr>"
  using sampler_slot_invariant [of 2500 "\<lparr>cur_freq = 0, max_freq = 0, min_freq = 0\<rparr>"
      example_host "Some (\<lambda>i. 0)" "replicate 4 \<lparr>cur_freq = 0, max_freq = 0, min_freq = 0\<rparr>"
      "[\<lparr>cur_freq = 2500, max_freq = 2500, min_freq = 2500\<rparr>,
              \<lparr>cur_freq = 0, max_freq = 0, min_freq = 0\<rparr>,
              \<lparr>cur_freq = 1800, max_freq = 1800, min_freq = 1800\<rparr>,
              \<lparr>cur_freq = 0, max_freq = 0, min_freq = 0\<rparr>]"
      4 "\<lambda>cpu. True"
      "[\<lparr>cur_freq = 2500, max_freq = 0x6b6b6b6b, min_freq = 2500\<rparr>,
          \<lparr>cur_freq = 0x6b6b6b6b, max_freq = 0x6b6b6b6b, min_freq = 0\<rparr>,
          \<lparr>cur_freq = 1800, max_freq = 0x6b6b6b6b, min_freq = 1800\<rparr>,
          \<lparr>cur_freq = 0x6b6b6b6b, max_freq = 0x6b6b6b6b, min_freq = 0\<rparr>]"]
    example_read example_reachable
  by (simp add: slot_inv_def lowest_online_def example_host_def upt_rec)

lemma partial_init:
  "init_min partial_host
     (kmalloc_array 4 (\<lambda>i. \<lparr>cur_freq = 700, max_freq = 800, min_freq = 900\<rparr>))
   = Inr [\<lparr>cur_freq = 700, max_freq = 800, min_freq = 0\<rparr>,
          \<lparr>cur_freq = 700, max_freq = 800, min_freq = 0\<rparr>,
          \<lparr>cur_freq = 700, max_freq = 800, min_freq = 900\<rparr>,
          \<lparr>cur_freq = 700, max_freq = 800, min_freq = 900\<rparr>]"
  by code_simp

lemma partial_first_cycle:
  "read_cpu_frequencies partial_host (Some (\<lambda>i. 0))
     [\<lparr>cur_freq = 700, max_freq = 800, min_freq = 0\<rparr>,
      \<lparr>cur_freq = 700, max_freq = 800, min_freq = 0\<rparr>,
      \<lparr>cur_freq = 700, max_freq = 800, min_freq = 900\<rparr>,
      \<lparr>cur_freq = 700, max_freq = 800, min_freq = 900\<rparr>]
   = Inr [\<lparr>cur_freq = 2500, max_freq = 2500, min_freq = 2500\<rparr>,
          \<lparr>cur_freq = 2500, max_freq = 2500, min_freq = 2500\<rparr>,
          \<lparr>cur_freq = 700, max_freq = 800, min_freq = 900\<rparr>,
          \<lparr>cur_freq = 700, max_freq = 800, min_freq = 900\<rparr>]"
  by code_simp

text \<open>
  Claim C1 as stated fails. The loop of \<^verbatim>\<open>my_module_init\<close> is over the possible CPUs
  (line 156), and no pass reads or writes the slot of a CPU that is not possible: such a
  slot holds what the block from \<^verbatim>\<open>kmalloc_array\<close> held. With \<^verbatim>\<open>NR_CPUS = 4\<close>, the
  possible CPUs 0 and 1 and a block whose records are (700, 800, 900), the store after
  the initialisation and one refresh cycle has in slot 2 the minimum 900, not zero and
  above the current value 700.
\<close>

theorem slot_of_impossible_cpu_breaks_invariant:
  "reachable 4 (\<lambda>cpu. cpu < 2)
     [\<lparr>cur_freq = 2500, max_freq = 2500, min_freq = 2500\<rparr>,
      \<lparr>cur_freq = 2500, max_freq = 2500, min_freq = 2500\<rparr>,
      \<lparr>cur_freq = 700, max_freq = 800, min_freq = 900\<rparr>,
      \<lparr>cur_freq = 700, max_freq = 800, min_freq = 900\<rparr>]
   \<and> \<not> slot_inv ([\<lparr>cur_freq = 2500, max_freq = 2500, min_freq = 2500\<rparr>,
      \<lparr>cur_freq = 2500, max_freq = 2500, min_freq = 2500\<rparr>,
      \<lparr>cur_freq = 700, max_freq = 800, min_freq = 900\<rparr>,
      \<lparr>cur_freq = 700, max_freq = 800, min_freq = 900\<rparr>] ! 2)"
proof
  have n: "NR_CPUS partial_host = 4" and p: "cpu_possible partial_host = (\<lambda>cpu. cpu < 2)"
    by (simp_all add: partial_host_def)
  have "reachable 4 (\<lambda>cpu. cpu < 2)
     [\<lparr>cur_freq = 700, max_freq = 800, min_freq = 0\<rparr>,
      \<lparr>cur_freq = 700, max_freq = 800, min_freq = 0\<rparr>,
      \<lparr>cur_freq = 700, max_freq = 800, min_freq = 900\<rparr>,
      \<lparr>cur_freq = 700, max_freq = 800, min_freq = 900\<rparr>]"
    by (rule reachable.init [OF n p partial_init])
  from reachable.cycle [OF this n partial_first_cycle]
  show "reachable 4 (\<lambda>cpu. cpu < 2)
     [\<lparr>cur_freq = 2500, max_freq = 2500, min_freq = 2500\<rparr>,
      \<lparr>cur_freq = 2500, max_freq = 2500, min_freq = 2500\<rparr>,
      \<lparr>cur_freq = 700, max_freq = 800, min_freq = 900\<rparr>,
      \<lparr>cur_freq = 700, max_freq = 800, min_freq = 900\<rparr>]" .
  show "\<not> slot_inv ([\<lparr>cur_freq = 2500, max_freq = 2500, min_freq = 2500\<rparr>,
      \<lparr>cur_freq = 2500, max_freq = 2500, min_freq = 2500\<rparr>,
      \<lparr>cur_freq = 700, max_freq = 800, min_freq = 900\<rparr>,
      \<lparr>cur_freq = 700, max_freq = 800, min_freq = 900\<rparr>] ! 2)"
    by (simp add: slot_inv_def)
qed

text \<open>
  Claim C6 does not hold of the code. \<^verbatim>\<open>kmalloc_array\<close> does not clear the block and the
  loop of \<^verbatim>\<open>my_module_init\<close> assigns \<^verbatim>\<open>min\<close> only: with a block that holds the byte
  \<open>0x6b\<close> throughout, every slot starts with current and maximum \<open>0x6b6b6b6b\<close>, and after
  the first refresh the slot of CPU 0 still has this maximum, although the only sample
  is 2500.
\<close>

theorem store_not_zero_initialized:
  "init_min example_host
     (kmalloc_array 4 (\<lambda>i. \<lparr>cur_freq = 0x6b6b6b6b, max_freq = 0x6b6b6b6b, min_freq = 0x6b6b6b6b\<rparr>))
   = Inr (replicate 4 \<lparr>cur_freq = 0x6b6b6b6b, max_freq = 0x6b6b6b6b, min_freq = 0\<rparr>)
   \<and> read_cpu_frequencies example_host (Some (\<lambda>i. 0))
       (replicate 4 \<lparr>cur_freq = 0x6b6b6b6b, max_freq = 0x6b6b6b6b, min_freq = 0\<rparr>)
     = Inr [\<lparr>cur_freq = 2500, max_freq = 0x6b6b6b6b, min_freq = 2500\<rparr>,
            \<lparr>cur_freq = 0x6b6b6b6b, max_freq = 0x6b6b6b6b, min_freq = 0\<rparr>,
            \<lparr>cur_freq = 1800, max_freq = 0x6b6b6b6b, min_freq = 1800\<rparr>,
            \<lparr>cur_freq = 0x6b6b6b6b, max_freq = 0x6b6b6b6b, min_freq = 0\<rparr>]"
  using example_init example_first_cycle by (rule conjI)

section \<open>The formatter pass\<close>

text \<open>
  The formatter writes the lines of the representatives one behind the other, each with
  its terminating zero byte, which the next line overwrites; the write that does not fit
  stops the run.
\<close>

lemma format_u_line:
  "format_u ''CPU %u Frequency: %u MHz, Max: %u MHz, Min: %u MHz\<newline>'' [a, b, c, d]
   = ''CPU '' @ dec_u a @ '' Frequency: '' @ dec_u b @ '' MHz, Max: '' @ dec_u c
     @ '' MHz, Min: '' @ dec_u d @ '' MHz\<newline>''"
  by simp

lemma format_cpu_shape: "format_cpu h cpu_freqs = on_first_thread h (format_act cpu_freqs)"
  by (auto simp: format_cpu_def on_first_thread_def format_act_def sprintf_def format_u_line
      report_line_def Let_def fun_eq_iff split: sum.splits)

lemma format_act_loop:
  assumes "\<forall>cpu\<in>set cpus. cpu < length cpu_freqs"
  shows "for_each_cpu (format_act cpu_freqs) cpus (buf, ptr)
         = (let out = concat (map (\<lambda>cpu. report_line cpu (cpu_freqs ! cpu)) cpus)
            in if cpus = [] then Inr (buf, ptr)
               else if ptr + length out + 1 \<le> length buf
               then Inr (take ptr buf @ out @ NUL # drop (ptr + length out + 1) buf, ptr + length out)
               else Inl OOB_cpu_freq_data)"
  using assms
proof (induction cpus arbitrary: buf ptr)
  case Nil
  then show ?case by simp
next
  case (Cons cpu cpus)
  let ?l = "report_line cpu (cpu_freqs ! cpu)"
  let ?rest = "concat (map (\<lambda>cpu. report_line cpu (cpu_freqs ! cpu)) cpus)"
  let ?b1 = "take ptr buf @ ?l @ NUL # drop (ptr + length ?l + 1) buf"
  have cpu: "cpu < length cpu_freqs" and tail: "\<forall>y\<in>set cpus. y < length cpu_freqs"
    using Cons.prems by simp_all
  show ?case
  proof (cases "ptr + length ?l + 1 \<le> length buf")
    case False
    then show ?thesis using cpu by (simp add: format_act_def Let_def)
  next
    case True
    have len1: "length ?b1 = length buf" using True by simp
    have step: "for_each_cpu (format_act cpu_freqs) (cpu # cpus) (buf, ptr)
          = for_each_cpu (format_act cpu_freqs) cpus (?b1, ptr + length ?l)"
      using True cpu by (simp add: format_act_def)
    show ?thesis
    proof (cases "cpus = []")
      case True
      then show ?thesis using step \<open>ptr + length ?l + 1 \<le> length buf\<close> by (simp add: Let_def)
    next
      case ne: False
      show ?thesis
      proof (cases "ptr + length ?l + length ?rest + 1 \<le> length buf")
        case False
        then show ?thesis
          using step ne Cons.IH [OF tail, of ?b1 "ptr + length ?l"] len1
          by (simp add: Let_def)
      next
        case fits: True
        have t: "take (ptr + length ?l) ?b1 = take ptr buf @ ?l" using True by simp
        have d: "drop (ptr + length ?l + length ?rest + 1) ?b1
                 = drop (ptr + length ?l + length ?rest + 1) buf"
          using True by (simp add: add.commute add.left_commute)
        show ?thesis
          using step ne fits Cons.IH [OF tail, of ?b1 "ptr + length ?l"] len1 t d
          by (simp add: Let_def add.assoc)
      qed
    qed
  qed
qed

lemma format_act_error: "format_act cpu_freqs cpu s \<noteq> Inl OOB_first_thread_per_core"
  by (simp add: format_act_def split: prod.splits)

lemma format_loops_bounded:
  assumes "\<forall>cpu<NR_CPUS h. cpu_online h cpu \<longrightarrow> topology_core_id h cpu < NR_CPUS h"
    and "length a = NR_CPUS h"
  shows "format_loops h a cpu_freqs buf
         = (case for_each_cpu (format_act cpu_freqs) (representatives h) (buf, 0) of
              Inl e \<Rightarrow> Inl e
            | Inr x \<Rightarrow> Inr (map (first_of h (online_cpus h)) [0..<NR_CPUS h], x))"
  by (simp add: format_loops_def init_first_thread_ok [OF assms(2)] format_cpu_shape
      first_thread_loop_online [OF assms(1)])

lemma format_loops_Inr_bounded:
  assumes "format_loops h a cpu_freqs buf = Inr r" and "length a = NR_CPUS h"
  shows "\<forall>cpu<NR_CPUS h. cpu_online h cpu \<longrightarrow> topology_core_id h cpu < NR_CPUS h"
proof -
  from assms have "for_each_cpu (on_first_thread h (format_act cpu_freqs)) (online_cpus h)
      (map (first_of h []) [0..<NR_CPUS h], buf, 0) = Inr r"
    by (simp add: format_loops_def init_first_thread_ok format_cpu_shape)
  from first_thread_loop_Inr_bounded [OF this] show ?thesis by simp
qed

lemma update_cpu_freq_data_bounded:
  assumes b: "\<forall>cpu<NR_CPUS h. cpu_online h cpu \<longrightarrow> topology_core_id h cpu < NR_CPUS h"
    and len: "NR_CPUS h \<le> length cpu_freqs"
  shows "update_cpu_freq_data h (Some junk) cpu_freqs buf
         = (if representatives h = [] then Inr buf
            else if length (report h cpu_freqs) + 1 \<le> length buf
            then Inr (report h cpu_freqs @ NUL # drop (length (report h cpu_freqs) + 1) buf)
            else Inl OOB_cpu_freq_data)"
proof -
  have r: "\<forall>cpu\<in>set (representatives h). cpu < length cpu_freqs"
    using len by (auto dest: representatives_lt)
  show ?thesis
    unfolding update_cpu_freq_data_def
    by (simp add: format_loops_bounded [OF b kmalloc_array_length]
        format_act_loop [OF r] Let_def report_def)
qed

lemma digit_char_set: "d < 10 \<Longrightarrow> digit_char d \<in> set ''0123456789''"
  unfolding digit_char_def by (rule nth_mem) simp

lemma dec_u_set: "set (dec_u n) \<subseteq> set ''0123456789''"
proof (induction n rule: dec_u.induct)
  case (1 n)
  show ?case
  proof (cases "n < 10")
    case True
    then show ?thesis using digit_char_set [of n] by (subst dec_u.simps) simp
  next
    case False
    have "n mod 10 < 10" by simp
    from digit_char_set [OF this] "1" [OF False] False
    show ?thesis by (subst dec_u.simps) simp
  qed
qed

lemma dec_u_no_NUL: "NUL \<notin> set (dec_u n)"
  using dec_u_set [of n] by (auto simp: NUL_def)

lemma report_line_no_NUL: "NUL \<notin> set (report_line cpu r)"
  by (simp add: report_line_def dec_u_no_NUL) (simp add: NUL_def)

lemma report_no_NUL: "NUL \<notin> set (report h cpu_freqs)"
  by (simp add: report_def report_line_no_NUL)

lemma strlen_terminated:
  assumes "NUL \<notin> set s"
  shows "strlen (s @ NUL # rest) = Inr (length s)"
proof -
  have "takeWhile (\<lambda>c. c \<noteq> NUL) (s @ NUL # rest) = s"
    using assms by (induction s) auto
  then show ?thesis by (simp add: strlen_def)
qed

lemma digit_val_digit_char: "d < 10 \<Longrightarrow> digit_val (digit_char d) = d"
proof -
  have "\<forall>d\<in>set [0..<10]. digit_val (digit_char d) = d"
    by (simp add: upt_rec digit_char_def digit_val_def)
  then show "d < 10 \<Longrightarrow> digit_val (digit_char d) = d" by simp
qed

lemma undec_dec_u: "undec (dec_u n) = n"
proof (induction n rule: dec_u.induct)
  case (1 n)
  show ?case
  proof (cases "n < 10")
    case True
    then show ?thesis
      by (subst dec_u.simps) (simp add: undec_def digit_val_digit_char)
  next
    case False
    have "undec (dec_u n) = 10 * undec (dec_u (n div 10)) + digit_val (digit_char (n mod 10))"
      using False by (subst dec_u.simps) (simp add: undec_def)
    also have "\<dots> = 10 * (n div 10) + n mod 10"
      using "1" [OF False] by (simp add: digit_val_digit_char)
    finally show ?thesis by simp
  qed
qed

lemma dec_u_length: "1 \<le> length (dec_u n)"
  by (subst dec_u.simps) simp

lemma report_line_length: "47 \<le> length (report_line cpu r)"
proof -
  have "length (report_line cpu r)
        = 43 + length (dec_u cpu) + length (dec_u (unat (cur_freq r)))
          + length (dec_u (unat (max_freq r))) + length (dec_u (unat (min_freq r)))"
    by (simp add: report_line_def)
  then show ?thesis
    using dec_u_length [of cpu] dec_u_length [of "unat (cur_freq r)"]
      dec_u_length [of "unat (max_freq r)"] dec_u_length [of "unat (min_freq r)"]
    by linarith
qed

lemma report_length: "47 * length (representatives h) \<le> length (report h cpu_freqs)"
proof -
  have "47 * length cpus \<le> length (concat (map (\<lambda>cpu. report_line cpu (cpu_freqs ! cpu)) cpus))"
    for cpus
  proof (induction cpus)
    case Nil
    then show ?case by simp
  next
    case (Cons cpu cpus)
    then show ?case using report_line_length [of cpu "cpu_freqs ! cpu"] by simp
  qed
  then show ?thesis by (simp add: report_def)
qed

lemma update_cpu_freq_data_overflow:
  assumes "\<forall>cpu<NR_CPUS h. cpu_online h cpu \<longrightarrow> topology_core_id h cpu < NR_CPUS h"
    and "NR_CPUS h \<le> length cpu_freqs"
    and "length buf \<le> 47 * length (representatives h)"
    and "representatives h \<noteq> []"
  shows "update_cpu_freq_data h (Some junk) cpu_freqs buf = Inl OOB_cpu_freq_data"
  using report_length [of h cpu_freqs] assms(3,4)
  by (simp add: update_cpu_freq_data_bounded [OF assms(1,2)])

lemma wide_host_representatives: "representatives (wide_host n) = [0..<n]"
proof -
  have "lowest_online (wide_host n) (topology_core_id (wide_host n) cpu) = Some cpu"
    if "cpu < n" for cpu
    using that by (simp add: lowest_online_Some) (simp add: wide_host_def)
  then have "filter (\<lambda>cpu. lowest_online (wide_host n) (topology_core_id (wide_host n) cpu) = Some cpu) [0..<n]
     = [0..<n]"
    by (simp add: filter_id_conv)
  then show ?thesis by (simp add: representatives_def wide_host_def)
qed

lemma wide_host_overflow:
  assumes "88 \<le> n" and "n \<le> length cpu_freqs"
  shows "update_cpu_freq_data (wide_host n) (Some junk) cpu_freqs cpu_freq_data_init
         = Inl OOB_cpu_freq_data"
proof (rule update_cpu_freq_data_overflow)
  show "\<forall>cpu<NR_CPUS (wide_host n). cpu_online (wide_host n) cpu \<longrightarrow>
          topology_core_id (wide_host n) cpu < NR_CPUS (wide_host n)"
    by (simp add: wide_host_def)
  show "NR_CPUS (wide_host n) \<le> length cpu_freqs" using assms(2) by (simp add: wide_host_def)
  show "length cpu_freq_data_init \<le> 47 * length (representatives (wide_host n))"
    using assms(1) by (simp add: wide_host_representatives cpu_freq_data_init_def)
  show "representatives (wide_host n) \<noteq> []"
    using assms(1) by (simp add: wide_host_representatives)
qed

lemma cpu_freq_data_init_length: "length cpu_freq_data_init = 4096"
  by (simp add: cpu_freq_data_init_def)

lemma example_representatives: "representatives example_host = [0, 2]"
  by (simp add: representatives_def lowest_online_def example_host_def upt_rec)

lemma example_report:
  "report example_host example_freqs =
   ''CPU 0 Frequency: 2500 MHz, Max: 3400 MHz, Min: 1200 MHz\<newline>CPU 2 Frequency: 1800 MHz, Max: 1800 MHz, Min: 1800 MHz\<newline>''"
  by (simp add: report_def example_representatives example_freqs_def report_line_def
      dec_u.simps digit_char_def)

text \<open>
  Claim C5, amended. When the core id of every online CPU is below \<^verbatim>\<open>NR_CPUS\<close>, the
  store has a slot for every CPU, at least one CPU is online, the scratch allocation
  succeeds, and the report with its terminating zero byte fits into the buffer, the
  formatter leaves in the buffer, from its start, exactly the report and a zero byte (the
  bytes behind it as they were): one line
  \<^verbatim>\<open>CPU <id> Frequency: <current> MHz, Max: <maximum> MHz, Min: <minimum> MHz\<close> with a
  line terminator for each representative CPU (the lowest-numbered online CPU of a core),
  in ascending order of the CPU numbers, and \<^verbatim>\<open>strlen\<close> of the buffer is the length of
  the report.
\<close>

theorem formatter_report:
  assumes "\<forall>cpu<NR_CPUS h. cpu_online h cpu \<longrightarrow> topology_core_id h cpu < NR_CPUS h"
    and "NR_CPUS h \<le> length cpu_freqs"
    and "\<exists>cpu<NR_CPUS h. cpu_online h cpu"
    and "length (report h cpu_freqs) + 1 \<le> length cpu_freq_data"
  shows "update_cpu_freq_data h (Some junk) cpu_freqs cpu_freq_data
           = Inr (report h cpu_freqs @ NUL # drop (length (report h cpu_freqs) + 1) cpu_freq_data)
         \<and> strlen (report h cpu_freqs @ NUL # drop (length (report h cpu_freqs) + 1) cpu_freq_data)
           = Inr (length (report h cpu_freqs))
         \<and> report h cpu_freqs
           = concat (map (\<lambda>cpu. ''CPU '' @ dec_u cpu
                                 @ '' Frequency: '' @ dec_u (unat (cur_freq (cpu_freqs ! cpu)))
                                 @ '' MHz, Max: '' @ dec_u (unat (max_freq (cpu_freqs ! cpu)))
                                 @ '' MHz, Min: '' @ dec_u (unat (min_freq (cpu_freqs ! cpu)))
                                 @ '' MHz\<newline>'')
                         (representatives h))
         \<and> sorted (representatives h) \<and> distinct (representatives h)
         \<and> (\<forall>cpu. cpu \<in> set (representatives h) \<longleftrightarrow>
                cpu < NR_CPUS h \<and> cpu_online h cpu
                \<and> (\<forall>y<cpu. cpu_online h y \<longrightarrow> topology_core_id h y \<noteq> topology_core_id h cpu))"
proof (intro conjI)
  have ne: "representatives h \<noteq> []"
    using assms(3) by (simp add: representatives_Nil)
  show "update_cpu_freq_data h (Some junk) cpu_freqs cpu_freq_data
           = Inr (report h cpu_freqs @ NUL # drop (length (report h cpu_freqs) + 1) cpu_freq_data)"
    using ne assms(4) by (simp add: update_cpu_freq_data_bounded [OF assms(1,2)])
  show "strlen (report h cpu_freqs @ NUL # drop (length (report h cpu_freqs) + 1) cpu_freq_data)
           = Inr (length (report h cpu_freqs))"
    by (rule strlen_terminated [OF report_no_NUL])
  show "report h cpu_freqs
           = concat (map (\<lambda>cpu. ''CPU '' @ dec_u cpu
                                 @ '' Frequency: '' @ dec_u (unat (cur_freq (cpu_freqs ! cpu)))
                                 @ '' MHz, Max: '' @ dec_u (unat (max_freq (cpu_freqs ! cpu)))
                                 @ '' MHz, Min: '' @ dec_u (unat (min_freq (cpu_freqs ! cpu)))
                                 @ '' MHz\<newline>'')
                         (representatives h))"
    by (simp add: report_def report_line_def)
  show "sorted (representatives h)" by (rule representatives_props(2))
  show "distinct (representatives h)" by (rule representatives_props(1))
  show "\<forall>cpu. cpu \<in> set (representatives h) \<longleftrightarrow>
                cpu < NR_CPUS h \<and> cpu_online h cpu
                \<and> (\<forall>y<cpu. cpu_online h y \<longrightarrow> topology_core_id h y \<noteq> topology_core_id h cpu)"
    by (simp add: representatives_props(3) lowest_online_Some)
qed

theorem formatter_report_witness:
  "list_all (\<lambda>cpu. topology_core_id example_host cpu < NR_CPUS example_host)
     (online_cpus example_host)
   \<and> NR_CPUS example_host \<le> length example_freqs
   \<and> (\<exists>cpu<NR_CPUS example_host. cpu_online example_host cpu)
   \<and> length (report example_host example_freqs) + 1 \<le> length cpu_freq_data_init
   \<and> update_cpu_freq_data example_host (Some (\<lambda>i. 0)) example_freqs cpu_freq_data_init
       = Inr (report example_host example_freqs
              @ NUL # drop (length (report example_host example_freqs) + 1) cpu_freq_data_init)
   \<and> report example_host example_freqs
       = ''CPU 0 Frequency: 2500 MHz, Max: 3400 MHz, Min: 1200 MHz\<newline>CPU 2 Frequency: 1800 MHz, Max: 1800 MHz, Min: 1800 MHz\<newline>''
   \<and> representatives example_host = [0, 2]"
proof -
  have b: "\<forall>cpu<NR_CPUS example_host. cpu_online example_host cpu
       \<longrightarrow> topology_core_id example_host cpu < NR_CPUS example_host"
    by (auto simp: example_host_def)
  have la: "list_all (\<lambda>cpu. topology_core_id example_host cpu < NR_CPUS example_host)
     (online_cpus example_host)"
    by (simp add: list_all_iff online_cpus_set b)
  have f: "NR_CPUS example_host \<le> length example_freqs"
    by (simp add: example_host_def example_freqs_def)
  have e: "\<exists>cpu<NR_CPUS example_host. cpu_online example_host cpu"
    by (rule exI [of _ 0]) (simp add: example_host_def)
  have l: "length (report example_host example_freqs) + 1 \<le> length cpu_freq_data_init"
    by (simp add: example_report cpu_freq_data_init_def)
  from formatter_report [OF b f e l, of "\<lambda>i. 0"]
  have "update_cpu_freq_data example_host (Some (\<lambda>i. 0)) example_freqs cpu_freq_data_init
       = Inr (report example_host example_freqs
              @ NUL # drop (length (report example_host example_freqs) + 1) cpu_freq_data_init)"
    by blast
  with la f e l example_report example_representatives show ?thesis by blast
qed

text \<open>
  Claim C5 as stated fails. On a machine with 100 online cores the lines do not fit into
  the 4096 bytes of the buffer, \<^verbatim>\<open>sprintf\<close> writes past its end, and the run produces no
  report. When the scratch allocation fails the function returns at once and the buffer
  is as before (here empty, with two representatives). With the core ids 0, 1, 8, 9 and
  \<^verbatim>\<open>NR_CPUS = 4\<close> the pass indexes the scratch array out of bounds.
\<close>

theorem formatter_no_report:
  "update_cpu_freq_data (wide_host 100) (Some (\<lambda>i. 0))
     (replicate 100 \<lparr>cur_freq = 2500, max_freq = 3400, min_freq = 1200\<rparr>) cpu_freq_data_init
   = Inl OOB_cpu_freq_data
   \<and> update_cpu_freq_data example_host None example_freqs cpu_freq_data_init
     = Inr cpu_freq_data_init
   \<and> update_cpu_freq_data sparse_host (Some (\<lambda>i. 0)) example_freqs cpu_freq_data_init
     = Inl OOB_first_thread_per_core"
proof (intro conjI)
  show "update_cpu_freq_data (wide_host 100) (Some (\<lambda>i. 0))
     (replicate 100 \<lparr>cur_freq = 2500, max_freq = 3400, min_freq = 1200\<rparr>) cpu_freq_data_init
   = Inl OOB_cpu_freq_data"
    by (rule wide_host_overflow) simp_all
  show "update_cpu_freq_data example_host None example_freqs cpu_freq_data_init
     = Inr cpu_freq_data_init"
    by (simp add: update_cpu_freq_data_def)
  show "update_cpu_freq_data sparse_host (Some (\<lambda>i. 0)) example_freqs cpu_freq_data_init
     = Inl OOB_first_thread_per_core"
    by (simp add: update_cpu_freq_data_def format_loops_def kmalloc_array_def
        init_first_thread_def sparse_host_def online_cpus_def upt_rec format_cpu_def
        first_thread_step_def sprintf_def example_freqs_def cpu_freq_data_init_length Let_def
        dec_u.simps)
qed

text \<open>
  Claim C7 does not hold of the code. On a machine with 128 online cores the report needs
  more than the 4096 bytes of the buffer; \<^verbatim>\<open>sprintf\<close> is given no bound, and the
  formatter neither truncates nor reports an error: it writes past the end of the buffer.
\<close>

theorem formatter_writes_past_buffer:
  "update_cpu_freq_data (wide_host 128) (Some (\<lambda>i. 0))
     (replicate 128 \<lparr>cur_freq = 2500, max_freq = 2500, min_freq = 2500\<rparr>) cpu_freq_data_init
   = Inl OOB_cpu_freq_data"
  by (rule wide_host_overflow) simp_all

section \<open>Bounds of the scratch array\<close>

text \<open>
  Claim C10. The scratch array has \<^verbatim>\<open>NR_CPUS\<close> entries and is indexed by core ids.
  When the core id of every online CPU is below \<^verbatim>\<open>NR_CPUS\<close>, no access to the scratch
  array is out of bounds, in the sampler pass and in the formatter pass, whatever the
  store, the buffer and the allocations are: neither pass stops in the out-of-bounds
  branch of the scratch array.
\<close>

theorem scratch_array_in_bounds:
  assumes "\<forall>cpu<NR_CPUS h. cpu_online h cpu \<longrightarrow> topology_core_id h cpu < NR_CPUS h"
  shows "read_cpu_frequencies h alloc cpu_freqs \<noteq> Inl OOB_first_thread_per_core
         \<and> update_cpu_freq_data h alloc' cpu_freqs cpu_freq_data \<noteq> Inl OOB_first_thread_per_core"
proof
  show "read_cpu_frequencies h alloc cpu_freqs \<noteq> Inl OOB_first_thread_per_core"
  proof (cases alloc)
    case None
    then show ?thesis by (simp add: read_cpu_frequencies_def)
  next
    case (Some junk)
    have "for_each_cpu (sample_act h) (representatives h) cpu_freqs \<noteq> Inl OOB_first_thread_per_core"
      by (rule for_each_cpu_Inl) (simp add: sample_act_error)
    then show ?thesis
      using Some
      by (auto simp: read_cpu_frequencies_def sample_loops_bounded [OF assms kmalloc_array_length]
          split: sum.splits)
  qed
  show "update_cpu_freq_data h alloc' cpu_freqs cpu_freq_data \<noteq> Inl OOB_first_thread_per_core"
  proof (cases alloc')
    case None
    then show ?thesis by (simp add: update_cpu_freq_data_def)
  next
    case (Some junk)
    have "for_each_cpu (format_act cpu_freqs) (representatives h) (cpu_freq_data, 0)
          \<noteq> Inl OOB_first_thread_per_core"
      by (rule for_each_cpu_Inl) (simp add: format_act_error)
    then show ?thesis
      using Some
      by (auto simp: update_cpu_freq_data_def format_loops_bounded [OF assms kmalloc_array_length]
          split: sum.splits)
  qed
qed

theorem scratch_array_in_bounds_witness:
  "list_all (\<lambda>cpu. topology_core_id example_host cpu < NR_CPUS example_host)
     (online_cpus example_host)
   \<and> read_cpu_frequencies example_host (Some (\<lambda>i. 0)) example_freqs
       \<noteq> Inl OOB_first_thread_per_core
   \<and> update_cpu_freq_data example_host (Some (\<lambda>i. 0)) example_freqs cpu_freq_data_init
       \<noteq> Inl OOB_first_thread_per_core"
proof -
  have b: "\<forall>cpu<NR_CPUS example_host. cpu_online example_host cpu
       \<longrightarrow> topology_core_id example_host cpu < NR_CPUS example_host"
    by (auto simp: example_host_def)
  have la: "list_all (\<lambda>cpu. topology_core_id example_host cpu < NR_CPUS example_host)
     (online_cpus example_host)"
    by (simp add: list_all_iff online_cpus_set b)
  from scratch_array_in_bounds [OF b] la show ?thesis by blast
qed

section \<open>The report endpoint\<close>

text \<open>
  Claim C9. Before the first refresh the buffer is in its initial state, 4096 zero bytes.
  A read then returns without error, delivers no byte, leaves the cursor where it was and
  returns 0, for every destination capacity and every cursor position.
\<close>

theorem proc_read_before_first_refresh:
  "proc_read count ppos cpu_freq_data_init = Inr ([], ppos, 0)"
  by (simp add: proc_read_def strlen_def cpu_freq_data_init_def simple_read_from_buffer_def)

end
